theory Spec2Isabelle
  imports Main
begin

text \<open>
  The source is \<open>frameworks/costello/mixins/observable.js\<close>: the mixin
  \<open>SC.Observable\<close> (lines 136 to 1194) and the class \<open>SC.Substate\<close>
  (lines 1241 to 2543). Definitions carry the names of the functions they
  model.
\<close>

section \<open>JavaScript values\<close>

text \<open>
  Values as far as the code tells them apart. Numbers are integers, so that
  \<open>===\<close> is equality; \<open>Obj\<close> is a reference to an object.

  A function object carries the flags that \<open>property()\<close>, \<open>cacheable()\<close> and
  \<open>volatile()\<close> set on it, and the two slot names under which the observable
  object keeps its cached result and the last value passed to the setter.
  \<open>fid\<close> stands for the identity of the function object (functions are compared
  by reference).
\<close>

record func =
  fid :: nat
  isProperty :: bool
  isCacheable :: bool
  isVolatile :: bool
  cacheKey :: string
  lastSetValueKey :: string

datatype jsval =
    Undefined
  | Null
  | Bool bool
  | Num int
  | Str string
  | Func func
  | Obj nat

text \<open>The value of \<open>!!v\<close>.\<close>

fun truthy :: "jsval \<Rightarrow> bool" where
  "truthy Undefined = False"
| "truthy Null = False"
| "truthy (Bool b) = b"
| "truthy (Num n) = (n \<noteq> 0)"
| "truthy (Str s) = (s \<noteq> [])"
| "truthy (Func f) = True"
| "truthy (Obj i) = True"

text \<open>\<open>SC.typeOf(v) === SC.T_FUNCTION\<close>, returning the function.\<close>

fun asFunction :: "jsval \<Rightarrow> func option" where
  "asFunction (Func f) = Some f"
| "asFunction v = None"

section \<open>State nodes: the event router\<close>

text \<open>
  A regular expression is represented by the predicate \<open>event.match(regexp)\<close>
  computes on event names.
\<close>

record string_handler =
  sh_name :: string
  sh_handler :: func

record regexp_handler =
  rh_name :: string
  rh_handler :: func
  rh_regexp :: "string \<Rightarrow> bool"

text \<open>
  The fields of a state node that the router and the substate lookup read.
  \<open>props\<close> holds the members of the node as \<open>this[key]\<close> reads them, the
  ones it has from its class included (every state node has the method
  \<open>toString\<close> of line 2518); a missing key reads as \<open>undefined\<close>. The
  registries hold the entries written into the objects that \<open>init\<close> creates
  (lines 1384 to 1389).
\<close>

record state_node =
  name :: string
  parentState :: "nat option"
  props :: "string \<rightharpoonup> jsval"
  registeredEventHandlers :: "string \<rightharpoonup> func"
  registeredStringEventHandlers :: "string \<rightharpoonup> string_handler"
  registeredRegExpEventHandlers :: "regexp_handler list"
  registeredStateObserveHandlers :: "string \<rightharpoonup> jsval list"
  registeredSubstatePaths :: "string \<rightharpoonup> (string \<times> nat) list"
  registeredSubstates :: "nat list"
  currentSubstates :: "nat list option"
  enteredSubstates :: "nat list option"

definition member_of :: "state_node \<Rightarrow> string \<Rightarrow> jsval" where
  "member_of st key = (case props st key of None \<Rightarrow> Undefined | Some v \<Rightarrow> v)"

text \<open>
  \<open>init\<close> creates the registries as \<open>{}\<close>. Reading such an object at a key
  finds the entry written under the key and, where none was written, the member
  of that name that every object inherits from \<open>Object.prototype\<close>. These
  members are functions (\<open>__proto__\<close> is an object), so they count as true in
  a condition, as every registered entry does. \<open>hasEntry registry key\<close> is the
  condition \<open>registry[key]\<close>.
\<close>

definition objectPrototypeMembers :: "string list" where
  "objectPrototypeMembers =
     [''constructor'', ''toString'', ''toLocaleString'', ''valueOf'', ''hasOwnProperty'',
      ''isPrototypeOf'', ''propertyIsEnumerable'', ''__proto__'', ''__defineGetter__'',
      ''__defineSetter__'', ''__lookupGetter__'', ''__lookupSetter__'']"

definition hasEntry :: "(string \<rightharpoonup> 'a) \<Rightarrow> string \<Rightarrow> bool" where
  "hasEntry registry key =
     (case registry key of
        Some v \<Rightarrow> True
      | None \<Rightarrow> key \<in> set objectPrototypeMembers)"

datatype warning =
    EventIsRegisteredHandler string
  | EventIsStateObserveHandler string

datatype sc_event =
    LogWarning warning
  | WillTryToHandleEvent string string
  | Invoke func "jsval list"
  | DidTryToHandleEvent string string bool

text \<open>
  The three lines every dispatch consists of: tell the statechart, call the
  handler and compare its result with \<open>NO\<close>, tell the statechart again.
  \<open>hret f args\<close> is the value the function \<open>f\<close> returns on \<open>args\<close>.
\<close>

definition dispatch ::
  "(func \<Rightarrow> jsval list \<Rightarrow> jsval) \<Rightarrow> string \<Rightarrow> string \<Rightarrow> func \<Rightarrow> jsval list
    \<Rightarrow> bool \<times> sc_event list" where
  "dispatch hret event hname f args =
     (let ret = (hret f args \<noteq> Bool False)
      in (ret, [WillTryToHandleEvent event hname, Invoke f args,
                DidTryToHandleEvent event hname ret]))"

text \<open>The loop over \<open>_registeredRegExpEventHandlers\<close>, from index 0 upwards.\<close>

fun firstRegExpHandler :: "string \<Rightarrow> regexp_handler list \<Rightarrow> regexp_handler option" where
  "firstRegExpHandler event [] = None"
| "firstRegExpHandler event (h # hs) =
     (if rh_regexp h event then Some h else firstRegExpHandler event hs)"

text \<open>
  \<open>tryToHandleEvent\<close>, lines 2213 to 2288. The trace messages of the debug
  build are left out. The registry of string handlers is read only for an event
  that passed the first test, which no name an object inherits does; there the
  entry is the one registered.
\<close>

definition tryToHandleEvent ::
  "(func \<Rightarrow> jsval list \<Rightarrow> jsval) \<Rightarrow> state_node \<Rightarrow> string \<Rightarrow> jsval \<Rightarrow> jsval
    \<Rightarrow> bool \<times> sc_event list" where
  "tryToHandleEvent hret st event arg1 arg2 =
     (if hasEntry (registeredEventHandlers st) event
      then (False, [LogWarning (EventIsRegisteredHandler event)])
      else if hasEntry (registeredStateObserveHandlers st) event
      then (False, [LogWarning (EventIsStateObserveHandler event)])
      else case asFunction (member_of st event) of
        Some f \<Rightarrow> dispatch hret event event f [arg1, arg2]
      | None \<Rightarrow>
       (case registeredStringEventHandlers st event of
          Some h \<Rightarrow> dispatch hret event (sh_name h) (sh_handler h) [Str event, arg1, arg2]
        | None \<Rightarrow>
         (case firstRegExpHandler event (registeredRegExpEventHandlers st) of
            Some h \<Rightarrow> dispatch hret event (rh_name h) (rh_handler h) [Str event, arg1, arg2]
          | None \<Rightarrow>
           (case asFunction (member_of st ''unknownEvent'') of
              Some f \<Rightarrow> dispatch hret event ''unknownEvent'' f [Str event, arg1, arg2]
            | None \<Rightarrow> (False, [])))))"

text \<open>\<open>respondsToEvent\<close>, lines 2482 to 2498.\<close>

definition respondsToEvent :: "state_node \<Rightarrow> string \<Rightarrow> bool" where
  "respondsToEvent st event =
     (if hasEntry (registeredEventHandlers st) event then False
      else if asFunction (member_of st event) \<noteq> None then True
      else if hasEntry (registeredStringEventHandlers st) event then True
      else if hasEntry (registeredStateObserveHandlers st) event then False
      else if firstRegExpHandler event (registeredRegExpEventHandlers st) \<noteq> None then True
      else asFunction (member_of st ''unknownEvent'') \<noteq> None)"


text \<open>
  Registration of handlers during \<open>initState\<close>. An event handler lists the
  events it serves: strings, regular expressions, or (wrongly) anything else.
  A state observe handler lists the property paths it observes.
\<close>

datatype event_spec = EvString string | EvRegExp "string \<Rightarrow> bool" | EvInvalid jsval

datatype init_error =
    InvalidEvent jsval string
  | InvalidObserveArgument jsval string

fun registerEvents ::
  "string \<Rightarrow> func \<Rightarrow> event_spec list \<Rightarrow> state_node \<times> init_error list
    \<Rightarrow> state_node \<times> init_error list" where
  "registerEvents hname handler [] acc = acc"
| "registerEvents hname handler (EvString e # es) (st, errs) =
     registerEvents hname handler es
       (st\<lparr>registeredStringEventHandlers :=
             (registeredStringEventHandlers st)
               (e \<mapsto> \<lparr>sh_name = hname, sh_handler = handler\<rparr>)\<rparr>, errs)"
| "registerEvents hname handler (EvRegExp r # es) (st, errs) =
     registerEvents hname handler es
       (st\<lparr>registeredRegExpEventHandlers :=
             registeredRegExpEventHandlers st
               @ [\<lparr>rh_name = hname, rh_handler = handler, rh_regexp = r\<rparr>]\<rparr>, errs)"
| "registerEvents hname handler (EvInvalid v # es) (st, errs) =
     registerEvents hname handler es (st, errs @ [InvalidEvent v hname])"

definition sc_registerEventHandler ::
  "string \<Rightarrow> func \<Rightarrow> event_spec list \<Rightarrow> state_node \<Rightarrow> state_node \<times> init_error list" where
  "sc_registerEventHandler hname handler events st =
     registerEvents hname handler events
       (st\<lparr>registeredEventHandlers := (registeredEventHandlers st)(hname \<mapsto> handler)\<rparr>, [])"

fun validObserveArgument :: "jsval \<Rightarrow> bool" where
  "validObserveArgument (Str s) = (s \<noteq> [])"
| "validObserveArgument v = False"

definition registerStateObserveHandler ::
  "string \<Rightarrow> jsval list \<Rightarrow> state_node \<Rightarrow> state_node \<times> init_error list" where
  "registerStateObserveHandler hname args st =
     (let errs = map (\<lambda>a. InvalidObserveArgument a hname)
                   (filter (\<lambda>a. \<not> validObserveArgument a) args)
      in if errs \<noteq> [] then (st, errs)
         else (st\<lparr>registeredStateObserveHandlers :=
                    (registeredStateObserveHandlers st)(hname \<mapsto> args)\<rparr>, []))"

text \<open>
  A node as \<open>init\<close> leaves it, with the given members (what \<open>this[key]\<close>
  reads, at every key).
\<close>

definition newState :: "string \<Rightarrow> (string \<rightharpoonup> jsval) \<Rightarrow> state_node" where
  "newState n ms =
     \<lparr>name = n, parentState = None, props = ms,
      registeredEventHandlers = Map.empty,
      registeredStringEventHandlers = Map.empty,
      registeredRegExpEventHandlers = [],
      registeredStateObserveHandlers = Map.empty,
      registeredSubstatePaths = Map.empty,
      registeredSubstates = [],
      currentSubstates = None, enteredSubstates = None\<rparr>"

definition plainFunction :: "nat \<Rightarrow> func" where
  "plainFunction i =
     \<lparr>fid = i, isProperty = False, isCacheable = False, isVolatile = False,
      cacheKey = [], lastSetValueKey = []\<rparr>"

section \<open>State nodes: substate lookup and transition requests\<close>

text \<open>
  The path matcher is a collaborator outside this repository's files. The node
  uses three things of a matcher made for an expression: its tokens (only
  whether there are any), the last part of the expression, and the test of a
  registered path against the expression. The matcher factory is a parameter
  \<open>pm\<close> of every function that resolves a path expression.
\<close>

record matcher =
  tokens :: "string list"
  lastPart :: string
  matchPath :: "string \<Rightarrow> bool"

datatype sc_error =
    ValueNotObjectOrString jsval
  | AmbiguousSubstate string "string list"
  | AmbiguousState jsval "string list"
  | CanNotGoToState jsval nat
  | CanNotGoToHistoryState jsval nat

text \<open>
  What a lookup returns: \<open>null\<close>, a state node, or whatever the caller's
  callback returned.
\<close>

datatype 'r lookup = LNull | LState nat | LCallback 'r

definition notifySubstateNotFound ::
  "(string list option \<Rightarrow> 'r) option \<Rightarrow> string list option \<Rightarrow> 'r lookup" where
  "notifySubstateNotFound callback keys =
     (case callback of None \<Rightarrow> LNull | Some cb \<Rightarrow> LCallback (cb keys))"

text \<open>
  \<open>getSubstate\<close> and \<open>_notifySubstateNotFound\<close>, lines 1846 to 1894. The
  table of paths is read at its registered keys. At a last part that names an
  inherited member and no registered state, the code finds that member instead
  of a table; its keys are no substate paths, and with a matcher that accepts
  none of them the code goes on as it does for a missing entry.
\<close>

definition getSubstate ::
  "(state_node \<Rightarrow> string \<Rightarrow> matcher) \<Rightarrow> state_node \<Rightarrow> jsval
    \<Rightarrow> (string list option \<Rightarrow> 'r) option \<Rightarrow> 'r lookup \<times> sc_error list" where
  "getSubstate pm st v callback =
     (if \<not> truthy v then (LNull, [])
      else case v of
        Obj i \<Rightarrow> (if i \<in> set (registeredSubstates st) then (LState i, []) else (LNull, []))
      | Str expr \<Rightarrow>
         (let m = pm st expr in
          if tokens m = [] then (LNull, [])
          else case registeredSubstatePaths st (lastPart m) of
            None \<Rightarrow> (notifySubstateNotFound callback None, [])
          | Some paths \<Rightarrow>
             (let matches = map snd (filter (\<lambda>(k, s). matchPath m k) paths) in
              if length matches = 1 then (LState (hd matches), [])
              else if length matches > 1 then
                (let keys = map fst paths in
                 if callback \<noteq> None
                 then (notifySubstateNotFound callback (Some keys), [])
                 else (notifySubstateNotFound callback None, [AmbiguousSubstate expr keys]))
              else (notifySubstateNotFound callback None, [])))
      | _ \<Rightarrow> (LNull, [ValueNotObjectOrString v]))"

text \<open>
  The nodes of a statechart, addressed by number; \<open>parentState\<close>,
  \<open>registeredSubstates\<close> and the lookup results are such numbers. A function
  that follows parent links returns \<open>None\<close> when it does not return: on a
  cyclic chain of parents, or at a number that names no node.
\<close>

type_synonym arena = "nat \<rightharpoonup> state_node"

text \<open>
  \<open>getState\<close> passes \<open>_handleSubstateNotFound\<close> as the callback, which
  \<open>getSubstate\<close> calls in return position only; the callback's body is the
  \<open>LCallback\<close> branch here.
\<close>

text \<open>\<open>SC.kindOf(v, SC.Substate)\<close>: the value is one of the statechart's nodes.\<close>

fun asState :: "arena \<Rightarrow> jsval \<Rightarrow> nat option" where
  "asState ns (Obj i) = (if ns i \<noteq> None then Some i else None)"
| "asState ns v = None"

partial_function (option) getState ::
  "(state_node \<Rightarrow> string \<Rightarrow> matcher) \<Rightarrow> arena \<Rightarrow> nat \<Rightarrow> jsval
    \<Rightarrow> (nat option \<times> sc_error list) option" where
  "getState pm ns sid v =
     (case ns sid of
        None \<Rightarrow> None
      | Some st \<Rightarrow>
          if v = Str (name st) then Some (Some sid, [])
          else case asState ns v of
            Some i \<Rightarrow> Some (Some i, [])
          | None \<Rightarrow>
             (case getSubstate pm st v (Some (\<lambda>keys. keys)) of
                (r, errs) \<Rightarrow>
                  (case r of
                     LNull \<Rightarrow> Some (None, errs)
                   | LState i \<Rightarrow> Some (Some i, errs)
                   | LCallback keys \<Rightarrow>
                       (case parentState st of
                          Some p \<Rightarrow>
                            Option.bind (getState pm ns p v)
                              (\<lambda>(r', errs'). Some (r', errs @ errs'))
                        | None \<Rightarrow>
                            (case keys of
                               Some ks \<Rightarrow> Some (None, errs @ [AmbiguousState v ks])
                             | None \<Rightarrow> Some (None, errs))))))"

declare getState.simps [code]

text \<open>\<open>stateIsCurrentSubstate(this)\<close>, which the computed property \<open>isCurrentState\<close> returns; its cache is not modelled.\<close>

definition isCurrentState :: "state_node \<Rightarrow> nat \<Rightarrow> bool" where
  "isCurrentState st sid =
     (case currentSubstates st of None \<Rightarrow> False | Some cur \<Rightarrow> sid \<in> set cur)"

text \<open>\<open>findFirstRelativeCurrentState\<close>, lines 2138 to 2155.\<close>

partial_function (option) findFirstRelativeCurrentState ::
  "(state_node \<Rightarrow> string \<Rightarrow> matcher) \<Rightarrow> arena \<Rightarrow> nat \<Rightarrow> jsval
    \<Rightarrow> (nat option \<times> sc_error list) option" where
  "findFirstRelativeCurrentState pm ns sid anchor =
     (case ns sid of
        None \<Rightarrow> None
      | Some st \<Rightarrow>
          if isCurrentState st sid then Some (Some sid, [])
          else
            (case (case currentSubstates st of None \<Rightarrow> [] | Some cur \<Rightarrow> cur) of
               [] \<Rightarrow>
                 (case parentState st of
                    Some p \<Rightarrow> findFirstRelativeCurrentState pm ns p Undefined
                  | None \<Rightarrow> Some (None, []))
             | c # cs \<Rightarrow>
                 if cs \<noteq> [] then
                   (case getSubstate pm st anchor (None :: (string list option \<Rightarrow> unit) option) of
                      (r, errs) \<Rightarrow>
                        (case r of
                           LState a \<Rightarrow>
                             Option.bind (findFirstRelativeCurrentState pm ns a Undefined)
                               (\<lambda>(r', errs'). Some (r', errs @ errs'))
                         | _ \<Rightarrow> Some (Some c, errs)))
                 else Some (Some c, [])))"

declare findFirstRelativeCurrentState.simps [code]

text \<open>
  The statechart: its nodes and its error log. The transition orchestrator is
  outside this repository's files; \<open>gotoSubstate\<close> and \<open>gotoHistoryState\<close>
  take its two entry points as parameters, each a function on the statechart.
\<close>

record statechart =
  nodes :: arena
  errorLog :: "sc_error list"

record orchestrator =
  sc_gotoState :: "nat \<Rightarrow> nat option \<Rightarrow> bool \<Rightarrow> jsval \<Rightarrow> statechart \<Rightarrow> statechart"
  sc_gotoHistoryState :: "nat \<Rightarrow> nat option \<Rightarrow> jsval \<Rightarrow> jsval \<Rightarrow> statechart \<Rightarrow> statechart"

definition stateLogErrors :: "sc_error list \<Rightarrow> statechart \<Rightarrow> statechart" where
  "stateLogErrors errs sc = sc\<lparr>errorLog := errorLog sc @ errs\<rparr>"

text \<open>\<open>gotoSubstate\<close>, lines 1944 to 1955, and \<open>gotoHistoryState\<close>, lines 2008 to 2019.\<close>

definition gotoSubstate ::
  "orchestrator \<Rightarrow> (state_node \<Rightarrow> string \<Rightarrow> matcher) \<Rightarrow> nat \<Rightarrow> jsval \<Rightarrow> jsval
    \<Rightarrow> statechart \<Rightarrow> statechart option" where
  "gotoSubstate orch pm sid v context sc =
     (case nodes sc sid of
        None \<Rightarrow> None
      | Some st \<Rightarrow>
         (case getSubstate pm st v (None :: (string list option \<Rightarrow> unit) option) of
            (r, errs) \<Rightarrow>
              (case r of
                 LState target \<Rightarrow>
                   Option.bind (findFirstRelativeCurrentState pm (nodes sc) sid (Obj target))
                     (\<lambda>(from, errs').
                        Some (sc_gotoState orch target from False context
                                (stateLogErrors (errs @ errs') sc)))
               | _ \<Rightarrow> Some (stateLogErrors (errs @ [CanNotGoToState v sid]) sc))))"

definition gotoHistoryState ::
  "orchestrator \<Rightarrow> (state_node \<Rightarrow> string \<Rightarrow> matcher) \<Rightarrow> nat \<Rightarrow> jsval \<Rightarrow> jsval \<Rightarrow> jsval
    \<Rightarrow> statechart \<Rightarrow> statechart option" where
  "gotoHistoryState orch pm sid v recursive context sc =
     Option.bind (getState pm (nodes sc) sid v)
       (\<lambda>(r, errs).
          case r of
            Some target \<Rightarrow>
              Option.bind (findFirstRelativeCurrentState pm (nodes sc) sid (Obj target))
                (\<lambda>(from, errs').
                   Some (sc_gotoHistoryState orch target from recursive context
                           (stateLogErrors (errs @ errs') sc)))
          | None \<Rightarrow> Some (stateLogErrors (errs @ [CanNotGoToHistoryState v sid]) sc))"


text \<open>
  An example node: a method \<open>foo\<close>, an event handler \<open>handlerA\<close> for the
  event \<open>frozen\<close> and for every event starting with \<open>num\<close>, a state observe
  handler \<open>obs\<close>, and an \<open>unknownEvent\<close> function. The method \<open>foo\<close>
  returns \<open>false\<close>, every other function returns nothing.
\<close>

definition example_hret :: "func \<Rightarrow> jsval list \<Rightarrow> jsval" where
  "example_hret f args = (if fid f = 1 then Bool False else Undefined)"

definition example_state :: state_node where
  "example_state =
     fst (registerStateObserveHandler ''obs'' [Str ''value'']
       (fst (sc_registerEventHandler ''handlerA'' (plainFunction 2)
               [EvString ''frozen'', EvRegExp (\<lambda>e. take 3 e = ''num'')]
          (newState ''A''
             [''foo'' \<mapsto> Func (plainFunction 1),
              ''handlerA'' \<mapsto> Func (plainFunction 2),
              ''obs'' \<mapsto> Func (plainFunction 3),
              ''unknownEvent'' \<mapsto> Func (plainFunction 9)]))))"

text \<open>
  A node with no handler registered. Its members are the method \<open>toString\<close>
  that every state node has and an \<open>unknownEvent\<close> function.
\<close>

definition plain_state :: state_node where
  "plain_state =
     newState ''B''
       [''toString'' \<mapsto> Func (plainFunction 4),
        ''unknownEvent'' \<mapsto> Func (plainFunction 9)]"


text \<open>
  For a path expression: the registered paths that end in the expression's last
  part (the table \<open>getSubstate\<close> looks up), and those among them that the
  matcher accepts.
\<close>

definition candidatePaths ::
  "(state_node \<Rightarrow> string \<Rightarrow> matcher) \<Rightarrow> state_node \<Rightarrow> string \<Rightarrow> (string \<times> nat) list" where
  "candidatePaths pm st expr =
     (case registeredSubstatePaths st (lastPart (pm st expr)) of None \<Rightarrow> [] | Some ps \<Rightarrow> ps)"

definition matchingPaths ::
  "(state_node \<Rightarrow> string \<Rightarrow> matcher) \<Rightarrow> state_node \<Rightarrow> string \<Rightarrow> (string \<times> nat) list" where
  "matchingPaths pm st expr =
     filter (\<lambda>(k, s). matchPath (pm st expr) k) (candidatePaths pm st expr)"

text \<open>
  An example matcher, for the examples below: an expression is a dotted path,
  and it accepts the registered paths it is a suffix of, part by part.
\<close>

fun splitDots :: "string \<Rightarrow> string list" where
  "splitDots [] = [[]]"
| "splitDots (c # cs) =
     (if c = CHR ''.'' then [] # splitDots cs
      else case splitDots cs of [] \<Rightarrow> [[c]] | w # ws \<Rightarrow> (c # w) # ws)"

definition exampleMatcher :: "state_node \<Rightarrow> string \<Rightarrow> matcher" where
  "exampleMatcher st expr =
     \<lparr>tokens = (if expr = [] then [] else splitDots expr),
      lastPart = last (splitDots expr),
      matchPath = (\<lambda>p. let ts = splitDots expr; ps = splitDots p
                       in length ts \<le> length ps \<and> drop (length ps - length ts) ps = ts)\<rparr>"

text \<open>
  An example statechart: \<open>root\<close> with the substates \<open>a\<close> and \<open>b\<close>,
  \<open>a.foo\<close>, \<open>b.x\<close> and \<open>b.x.foo\<close>, each registered with all its
  ancestors under its relative path. Its orchestrator, were it called, would
  drop every node.
\<close>

definition example_arena :: arena where
  "example_arena =
     [0 \<mapsto> (newState ''root'' Map.empty)
            \<lparr>registeredSubstatePaths :=
               [''a'' \<mapsto> [(''a'', 1)], ''b'' \<mapsto> [(''b'', 2)], ''x'' \<mapsto> [(''b.x'', 4)],
                ''foo'' \<mapsto> [(''a.foo'', 3), (''b.x.foo'', 5)]],
             registeredSubstates := [1, 3, 2, 4, 5]\<rparr>,
      1 \<mapsto> (newState ''a'' Map.empty)
            \<lparr>parentState := Some 0,
             registeredSubstatePaths := [''foo'' \<mapsto> [(''foo'', 3)]],
             registeredSubstates := [3]\<rparr>,
      2 \<mapsto> (newState ''b'' Map.empty)
            \<lparr>parentState := Some 0,
             registeredSubstatePaths := [''x'' \<mapsto> [(''x'', 4)], ''foo'' \<mapsto> [(''x.foo'', 5)]],
             registeredSubstates := [4, 5]\<rparr>,
      3 \<mapsto> (newState ''foo'' Map.empty)\<lparr>parentState := Some 1\<rparr>,
      4 \<mapsto> (newState ''x'' Map.empty)
            \<lparr>parentState := Some 2,
             registeredSubstatePaths := [''foo'' \<mapsto> [(''foo'', 5)]],
             registeredSubstates := [5]\<rparr>,
      5 \<mapsto> (newState ''foo'' Map.empty)\<lparr>parentState := Some 4\<rparr>]"

definition example_root :: state_node where
  "example_root = the (example_arena 0)"

text \<open>
  A root under which three states named \<open>foo\<close> are registered, at the paths
  \<open>a.foo\<close>, \<open>b.x.foo\<close> and \<open>c.x.foo\<close>.
\<close>

definition wide_root :: state_node where
  "wide_root =
     (newState ''root'' Map.empty)
       \<lparr>registeredSubstatePaths :=
          [''foo'' \<mapsto> [(''a.foo'', 3), (''b.x.foo'', 5), (''c.x.foo'', 7)]],
        registeredSubstates := [3, 5, 7]\<rparr>"

definition example_orchestrator :: orchestrator where
  "example_orchestrator =
     \<lparr>sc_gotoState = (\<lambda>target from useHistory context sc. sc\<lparr>nodes := Map.empty\<rparr>),
      sc_gotoHistoryState = (\<lambda>target from recursive context sc. sc\<lparr>nodes := Map.empty\<rparr>)\<rparr>"

definition example_statechart :: statechart where
  "example_statechart = \<lparr>nodes = example_arena, errorLog = []\<rparr>"

section \<open>Observable objects\<close>

text \<open>
  An observable object: its property slots (\<open>this[key]\<close>, which also hold the
  cache and last-set-value slots of its computed properties, under the names the
  function objects give), and the bookkeeping \<open>SC.Observable\<close> keeps in
  \<open>_kvo_changeLevel\<close>, \<open>_kvo_changes\<close>, \<open>_kvo_altChanges\<close>,
  \<open>_kvo_revision\<close>, \<open>propertyRevision\<close>, \<open>_kvo_dependents\<close>,
  \<open>_kvo_cachedDependents\<close>, the observer sets \<open>_kvo_observers_<key>\<close>,
  \<open>_kvo_observed_keys\<close> and the local observers \<open>_kvo_local_<key>\<close>. A
  field that may be \<open>undefined\<close> is an option. \<open>automaticallyNotifies\<close> is
  the object's \<open>automaticallyNotifiesObserversFor\<close>, and
  \<open>isObserveringSuspended\<close> the switch of \<open>SC.Observers\<close> the object reads.
  The object is one that \<open>initObservable\<close> has run on; the call of
  \<open>SC.Observers.flush()\<close> that opens a flush, which connects observers
  waiting for other objects, is left out.

  Code the object calls but does not contain is recorded in \<open>trace\<close>, in call
  order: the hooks \<open>propertyWillChange\<close> and \<open>propertyDidChange\<close>, each
  call of a property function, and each call of an observer. Observers are
  recorded and have no effect on the object: the model covers observers that do
  not change the object they observe.
\<close>

datatype obs_event =
    WillChange string
  | DidChange string
  | Call func string jsval
  | Notified "nat option" nat string int
  | LocalNotified string string int
  | StarNotified "nat option" nat string int
  | PropertyObserver string int
  | HasPendingChanges

text \<open>
  Modelled from the spec: the observer set (\<open>private/observer_set\<close> is not
  among the files). A registration is a target (none for the object itself), a
  method, and the revision it was last notified at; a pair of target and method
  is registered at most once for a property.
\<close>

record member =
  m_target :: "nat option"
  m_method :: nat
  m_stamp :: "int option"

record observable =
  slots :: "string \<rightharpoonup> jsval"
  automaticallyNotifies :: "string \<Rightarrow> bool"
  isObserveringSuspended :: bool
  kvo_changeLevel :: "int option"
  kvo_changes :: "string list option"
  kvo_altChanges :: "string list option"
  kvo_revision :: "int option"
  propertyRevision :: int
  kvo_dependents :: "(string \<times> string list) list option"
  kvo_cachedDependents :: "(string \<times> func list) list option"
  kvo_observers :: "string \<rightharpoonup> member list"
  kvo_observed_keys :: "string list"
  kvo_local :: "string \<rightharpoonup> string list"
  trace :: "obs_event list"

text \<open>
  What a property function does when called on the object with a key and a
  value (\<open>undefined\<close> when read): it returns a value and may write slots.
  It is a parameter \<open>pf\<close> of \<open>get\<close> and \<open>set\<close>.
\<close>

type_synonym property_functions =
  "func \<Rightarrow> string \<Rightarrow> jsval \<Rightarrow> (string \<rightharpoonup> jsval) \<Rightarrow> jsval \<times> (string \<rightharpoonup> jsval)"

definition slot :: "observable \<Rightarrow> string \<Rightarrow> jsval" where
  "slot obj key = (case slots obj key of None \<Rightarrow> Undefined | Some v \<Rightarrow> v)"

definition record_event :: "obs_event \<Rightarrow> observable \<Rightarrow> observable" where
  "record_event e obj = obj\<lparr>trace := trace obj @ [e]\<rparr>"

text \<open>
  Modelled from the spec: \<open>SC.Set\<close> (not among the files), a set that keeps
  its members in the order they were added; \<open>add\<close> of a member changes
  nothing, \<open>pop\<close> takes the member added last.
\<close>

definition setAdd :: "'a \<Rightarrow> 'a list \<Rightarrow> 'a list" where
  "setAdd x xs = (if x \<in> set xs then xs else xs @ [x])"

fun setAddEach :: "'a list \<Rightarrow> 'a list \<Rightarrow> 'a list" where
  "setAddEach [] xs = xs"
| "setAddEach (y # ys) xs = setAddEach ys (setAdd y xs)"

subsection \<open>Change levels\<close>

text \<open>\<open>this._kvo_changeLevel || 0\<close> and \<open>this._kvo_revision || 0\<close>.\<close>

definition levelOf :: "observable \<Rightarrow> int" where
  "levelOf obj = (case kvo_changeLevel obj of None \<Rightarrow> 0 | Some n \<Rightarrow> n)"

definition revisionOf :: "observable \<Rightarrow> int" where
  "revisionOf obj = (case kvo_revision obj of None \<Rightarrow> 0 | Some n \<Rightarrow> n)"

text \<open>\<open>beginPropertyChanges\<close>, lines 330 to 333.\<close>

definition beginPropertyChanges :: "observable \<Rightarrow> observable" where
  "beginPropertyChanges obj = obj\<lparr>kvo_changeLevel := Some (levelOf obj + 1)\<rparr>"

text \<open>\<open>(this._kvo_changeLevel || 1) - 1\<close>: zero is falsy as \<open>undefined\<close> is.\<close>

definition lowerLevel :: "int option \<Rightarrow> int" where
  "lowerLevel l = (case l of None \<Rightarrow> 1 | Some n \<Rightarrow> if n = 0 then 1 else n) - 1"

subsection \<open>The flush\<close>

text \<open>Clearing the cache of the property at a key, if it is a cacheable one.\<close>

definition clearCacheOf :: "string \<Rightarrow> (string \<rightharpoonup> jsval) \<Rightarrow> (string \<rightharpoonup> jsval)" where
  "clearCacheOf key s =
     (case s key of
        Some (Func f) \<Rightarrow> if isCacheable f then s(cacheKey f \<mapsto> Undefined) else s
      | _ \<Rightarrow> s)"

text \<open>The inner loop over the dependents of one key, given last to first.\<close>

fun addDependentKeys ::
  "string list \<Rightarrow> string list \<times> (string \<rightharpoonup> jsval) \<Rightarrow> string list \<times> (string \<rightharpoonup> jsval)" where
  "addDependentKeys [] acc = acc"
| "addDependentKeys (k # ks) (changes, s) =
     addDependentKeys ks (setAdd k changes, clearCacheOf k s)"

definition dependentsOf :: "(string \<times> string list) list \<Rightarrow> string \<Rightarrow> string list" where
  "dependentsOf deps key = (case map_of deps key of None \<Rightarrow> [] | Some ks \<Rightarrow> ks)"

definition dependentKeys :: "(string \<times> string list) list \<Rightarrow> string set" where
  "dependentKeys deps = (\<Union>p \<in> set deps. set (snd p))"

lemma setAdd_set: "set (setAdd x xs) = insert x (set xs)"
  by (auto simp: setAdd_def)

lemma setAdd_length: "length (setAdd x xs) = length xs + (if x \<in> set xs then 0 else 1)"
  by (simp add: setAdd_def)

lemma addDependentKeys_set:
  "set (fst (addDependentKeys ks (changes, s))) = set changes \<union> set ks"
  by (induction ks arbitrary: changes s) (auto simp: setAdd_set)

lemma addDependentKeys_length:
  "length (fst (addDependentKeys ks (changes, s)))
     = length changes + card (set ks - set changes)"
proof (induction ks arbitrary: changes s)
  case Nil
  then show ?case by simp
next
  case (Cons k ks)
  show ?case
  proof (cases "k \<in> set changes")
    case True
    then have "set (k # ks) - set changes = set ks - set changes" by auto
    with True Cons show ?thesis by (simp add: setAdd_def)
  next
    case False
    have fin: "finite (set ks - insert k (set changes))" by simp
    have "set (k # ks) - set changes = insert k (set ks - insert k (set changes))"
      using False by auto
    then have "card (set (k # ks) - set changes) = Suc (card (set ks - insert k (set changes)))"
      using fin by simp
    with False Cons show ?thesis by (simp add: setAdd_def)
  qed
qed

lemma dependentsOf_subset: "set (dependentsOf deps key) \<subseteq> dependentKeys deps"
proof (cases "map_of deps key")
  case None
  then show ?thesis by (simp add: dependentsOf_def)
next
  case (Some ks)
  then have "(key, ks) \<in> set deps" by (rule map_of_SomeD)
  then show ?thesis using Some by (force simp: dependentsOf_def dependentKeys_def)
qed

lemma finite_dependentKeys: "finite (dependentKeys deps)"
  by (simp add: dependentKeys_def)

text \<open>
  The loop that walks the captured set by index while it grows: every key's
  dependents are added, and theirs in turn.
\<close>

lemma expandDependents_measure:
  assumes lt: "idx < length changes"
    and x: "addDependentKeys (rev (dependentsOf deps (changes ! idx))) (changes, s) = (xa, y)"
  shows "card (dependentKeys deps - set xa) + (length xa - Suc idx)
      < card (dependentKeys deps - set changes) + (length changes - idx)"
proof -
  let ?ks = "dependentsOf deps (changes ! idx)"
  let ?D = "dependentKeys deps"
  let ?new = "set ?ks - set changes"
  have xa: "xa = fst (addDependentKeys (rev ?ks) (changes, s))"
    using x by simp
  have set_xa: "set xa = set changes \<union> set ?ks"
    by (simp add: xa addDependentKeys_set)
  have len_xa: "length xa = length changes + card ?new"
    by (simp add: xa addDependentKeys_length)
  have sub: "?new \<subseteq> ?D - set changes"
    using dependentsOf_subset[of deps "changes ! idx"] by auto
  have fin: "finite (?D - set changes)"
    using finite_dependentKeys by simp
  have "?D - set xa = (?D - set changes) - ?new"
    using set_xa by auto
  then have "card (?D - set xa) = card (?D - set changes) - card ?new"
    using sub fin by (simp add: card_Diff_subset finite_subset)
  moreover have "card ?new \<le> card (?D - set changes)"
    using fin sub by (rule card_mono)
  ultimately show ?thesis
    using lt len_xa by simp
qed

function expandDependents ::
  "(string \<times> string list) list \<Rightarrow> nat \<Rightarrow> string list \<times> (string \<rightharpoonup> jsval)
    \<Rightarrow> string list \<times> (string \<rightharpoonup> jsval)" where
  "expandDependents deps idx (changes, s) =
     (if idx < length changes
      then expandDependents deps (Suc idx)
             (addDependentKeys (rev (dependentsOf deps (changes ! idx))) (changes, s))
      else (changes, s))"
  by pat_completeness auto
termination
proof (relation "measure (\<lambda>(deps, idx, changes, s).
          card (dependentKeys deps - set changes) + (length changes - idx))", goal_cases)
  case 1
  show ?case by simp
next
  case (2 deps idx changes s)
  obtain xa y
    where x: "addDependentKeys (rev (dependentsOf deps (changes ! idx))) (changes, s) = (xa, y)"
    by force
  from expandDependents_measure[OF 2 x] show ?case
    by (simp add: x)
qed

declare expandDependents.simps [simp del]

text \<open>
  The loop over the members of one key's observer set: a member stamped with
  this flush's revision is skipped, any other is stamped and called.
\<close>

fun notifyMembers :: "int \<Rightarrow> string \<Rightarrow> member list \<Rightarrow> member list \<times> obs_event list" where
  "notifyMembers r key [] = ([], [])"
| "notifyMembers r key (m # ms) =
     (if m_stamp m = Some r
      then (m # fst (notifyMembers r key ms), snd (notifyMembers r key ms))
      else (m\<lparr>m_stamp := Some r\<rparr> # fst (notifyMembers r key ms),
            Notified (m_target m) (m_method m) key r # snd (notifyMembers r key ms)))"

text \<open>
  The body of the loop over the changed keys: the key's observers, its local
  observers (the named methods that exist), the observers of \<open>*\<close> unless the
  key is \<open>*\<close> itself, and the object's \<open>propertyObserver\<close> if it has one.
\<close>

definition notifyKey :: "int \<Rightarrow> string \<Rightarrow> observable \<Rightarrow> observable" where
  "notifyKey r key obj =
     (let observers' =
            (case kvo_observers obj key of
               None \<Rightarrow> kvo_observers obj
             | Some ms \<Rightarrow> (kvo_observers obj)(key \<mapsto> fst (notifyMembers r key ms)));
          evs1 = (case kvo_observers obj key of
                    None \<Rightarrow> []
                  | Some ms \<Rightarrow> snd (notifyMembers r key ms));
          evs2 = (case kvo_local obj key of
                    None \<Rightarrow> []
                  | Some ns \<Rightarrow> map (\<lambda>n. LocalNotified n key r)
                                 (filter (\<lambda>n. truthy (slot obj n)) ns));
          evs3 = (case kvo_observers obj ''*'' of
                    None \<Rightarrow> []
                  | Some ms \<Rightarrow>
                      if key \<noteq> ''*''
                      then map (\<lambda>m. StarNotified (m_target m) (m_method m) key r) ms
                      else []);
          evs4 = (if truthy (slot obj ''propertyObserver'')
                  then [PropertyObserver key r] else [])
      in obj\<lparr>kvo_observers := observers', trace := trace obj @ evs1 @ evs2 @ evs3 @ evs4\<rparr>)"

text \<open>The loop \<open>while (changes.length > 0)\<close>, given the keys in the order popped.\<close>

fun notifyChanges :: "int \<Rightarrow> string list \<Rightarrow> observable \<Rightarrow> observable" where
  "notifyChanges r [] obj = obj"
| "notifyChanges r (k # ks) obj = notifyChanges r ks (notifyKey r k obj)"

text \<open>
  The key passed to \<open>_notifyPropertyObservers\<close> is \<open>None\<close> when none is
  passed; the empty string is falsy.
\<close>

fun truthyKey :: "string option \<Rightarrow> bool" where
  "truthyKey None = False"
| "truthyKey (Some k) = (k \<noteq> [])"

definition hasPendingChanges :: "observable \<Rightarrow> bool" where
  "hasPendingChanges obj =
     (case kvo_changes obj of None \<Rightarrow> False | Some c \<Rightarrow> c \<noteq> [])"

text \<open>
  One round of the outer loop of the flush. The captured set is the pending set
  with the key passed added (for \<open>*\<close>, with \<open>*\<close> and every observed key
  added); it is then expanded by the dependents.
\<close>

definition capturedChanges :: "string option \<Rightarrow> observable \<Rightarrow> string list" where
  "capturedChanges key obj =
     (let ch0 = (case kvo_changes obj of None \<Rightarrow> [] | Some c \<Rightarrow> c)
      in if key = Some ''*''
         then setAddEach (kvo_observed_keys obj) (setAdd ''*'' ch0)
         else if truthyKey key then setAdd (the key) ch0 else ch0)"

definition expandedChanges ::
  "string option \<Rightarrow> observable \<Rightarrow> string list \<times> (string \<rightharpoonup> jsval)" where
  "expandedChanges key obj =
     (case kvo_dependents obj of
        None \<Rightarrow> (capturedChanges key obj, slots obj)
      | Some deps \<Rightarrow> expandDependents deps 0 (capturedChanges key obj, slots obj))"

definition notifyRound :: "string option \<Rightarrow> observable \<Rightarrow> observable" where
  "notifyRound key obj =
     (let r = propertyRevision obj;
          ex = expandedChanges key obj;
          obj1 = obj\<lparr>propertyRevision := r + 1,
                     kvo_changes := kvo_altChanges obj,
                     kvo_altChanges := None,
                     slots := snd ex\<rparr>;
          obj2 = notifyChanges r (rev (fst ex)) obj1
      in obj2\<lparr>kvo_altChanges := Some []\<rparr>)"

lemma notifyKey_fields [simp]:
  "kvo_changes (notifyKey r k obj) = kvo_changes obj"
  "kvo_altChanges (notifyKey r k obj) = kvo_altChanges obj"
  "kvo_changeLevel (notifyKey r k obj) = kvo_changeLevel obj"
  "kvo_revision (notifyKey r k obj) = kvo_revision obj"
  "propertyRevision (notifyKey r k obj) = propertyRevision obj"
  "slots (notifyKey r k obj) = slots obj"
  "kvo_dependents (notifyKey r k obj) = kvo_dependents obj"
  "kvo_cachedDependents (notifyKey r k obj) = kvo_cachedDependents obj"
  "kvo_local (notifyKey r k obj) = kvo_local obj"
  "kvo_observed_keys (notifyKey r k obj) = kvo_observed_keys obj"
  "automaticallyNotifies (notifyKey r k obj) = automaticallyNotifies obj"
  "isObserveringSuspended (notifyKey r k obj) = isObserveringSuspended obj"
  by (simp_all add: notifyKey_def Let_def)

lemma notifyChanges_fields [simp]:
  "kvo_changes (notifyChanges r ks obj) = kvo_changes obj"
  "kvo_altChanges (notifyChanges r ks obj) = kvo_altChanges obj"
  "kvo_changeLevel (notifyChanges r ks obj) = kvo_changeLevel obj"
  "kvo_revision (notifyChanges r ks obj) = kvo_revision obj"
  "propertyRevision (notifyChanges r ks obj) = propertyRevision obj"
  "slots (notifyChanges r ks obj) = slots obj"
  "kvo_dependents (notifyChanges r ks obj) = kvo_dependents obj"
  "kvo_cachedDependents (notifyChanges r ks obj) = kvo_cachedDependents obj"
  "kvo_local (notifyChanges r ks obj) = kvo_local obj"
  "kvo_observed_keys (notifyChanges r ks obj) = kvo_observed_keys obj"
  "automaticallyNotifies (notifyChanges r ks obj) = automaticallyNotifies obj"
  "isObserveringSuspended (notifyChanges r ks obj) = isObserveringSuspended obj"
  by (induction ks arbitrary: obj; simp)+

lemma notifyRound_fields [simp]:
  "kvo_changes (notifyRound key obj) = kvo_altChanges obj"
  "kvo_altChanges (notifyRound key obj) = Some []"
  "kvo_changeLevel (notifyRound key obj) = kvo_changeLevel obj"
  "kvo_revision (notifyRound key obj) = kvo_revision obj"
  "propertyRevision (notifyRound key obj) = propertyRevision obj + 1"
  "kvo_dependents (notifyRound key obj) = kvo_dependents obj"
  "kvo_cachedDependents (notifyRound key obj) = kvo_cachedDependents obj"
  "kvo_local (notifyRound key obj) = kvo_local obj"
  "kvo_observed_keys (notifyRound key obj) = kvo_observed_keys obj"
  "automaticallyNotifies (notifyRound key obj) = automaticallyNotifies obj"
  "isObserveringSuspended (notifyRound key obj) = isObserveringSuspended obj"
  by (simp_all add: notifyRound_def Let_def)

text \<open>
  The outer loop: it runs while changes are pending or a key was passed. A
  round leaves the set it emptied in \<open>_kvo_altChanges\<close> and makes the former
  \<open>_kvo_altChanges\<close> the pending set, so with observers that change nothing it
  ends after at most three rounds.
\<close>

function notifyLoop :: "string option \<Rightarrow> observable \<Rightarrow> observable" where
  "notifyLoop key obj =
     (if hasPendingChanges obj \<or> truthyKey key
      then notifyLoop None (notifyRound key obj)
      else obj)"
  by pat_completeness auto
termination
  by (relation "measure (\<lambda>(key, obj).
        (case kvo_altChanges obj of None \<Rightarrow> 0 | Some c \<Rightarrow> if c \<noteq> [] then 3 else 0)
        + (if hasPendingChanges obj then 2 else 0)
        + (if truthyKey key then 1 else 0))")
     (auto simp: hasPendingChanges_def split: option.splits)

declare notifyLoop.simps [simp del]

text \<open>\<open>_notifyPropertyObservers\<close>, lines 742 to 858.\<close>

definition notifyPropertyObservers :: "string option \<Rightarrow> observable \<Rightarrow> observable" where
  "notifyPropertyObservers key obj =
     (let obj1 = obj\<lparr>kvo_changeLevel := Some (levelOf obj + 1)\<rparr>;
          obj2 = notifyLoop key obj1
      in obj2\<lparr>kvo_changeLevel := Some (lowerLevel (kvo_changeLevel obj2))\<rparr>)"

text \<open>\<open>endPropertyChanges\<close>, lines 347 to 354.\<close>

definition endPropertyChanges :: "observable \<Rightarrow> observable" where
  "endPropertyChanges obj =
     (let obj1 = obj\<lparr>kvo_changeLevel := Some (lowerLevel (kvo_changeLevel obj))\<rparr>
      in if lowerLevel (kvo_changeLevel obj) \<le> 0 \<and> hasPendingChanges obj1
         then notifyPropertyObservers None obj1
         else obj1)"

subsection \<open>Property changes\<close>

text \<open>\<open>propertyWillChange\<close> does nothing but can be overridden; the call is recorded.\<close>

definition propertyWillChange :: "string \<Rightarrow> observable \<Rightarrow> observable" where
  "propertyWillChange key obj = record_event (WillChange key) obj"

text \<open>
  \<open>propertyDidChange\<close> up to the test for queuing: the revision is counted
  up, and the cache and last set value of a cacheable function at the key are
  cleared.
\<close>

definition countChange :: "string \<Rightarrow> observable \<Rightarrow> observable" where
  "countChange key obj =
     (let obj1 = (record_event (DidChange key) obj)\<lparr>kvo_revision := Some (revisionOf obj + 1)\<rparr>
      in case slot obj1 key of
           Func f \<Rightarrow>
             if isCacheable f
             then obj1\<lparr>slots := (slots obj1)
                         (lastSetValueKey f \<mapsto> Undefined, cacheKey f \<mapsto> Undefined)\<rparr>
             else obj1
         | _ \<Rightarrow> obj1)"

text \<open>\<open>propertyDidChange\<close>, lines 393 to 417.\<close>

definition propertyDidChange :: "string \<Rightarrow> observable \<Rightarrow> observable" where
  "propertyDidChange key obj =
     (let obj2 = countChange key obj in
      if 0 < levelOf obj2 \<or> isObserveringSuspended obj2
      then
        (let obj3 = obj2\<lparr>kvo_changes :=
                           Some (setAdd key (case kvo_changes obj2 of
                                               None \<Rightarrow> [] | Some c \<Rightarrow> c))\<rparr>
         in if \<not> 0 < levelOf obj2 then record_event HasPendingChanges obj3 else obj3)
      else notifyPropertyObservers (Some key) obj2)"

subsection \<open>Reading and writing properties\<close>

text \<open>\<open>unknownProperty\<close>, lines 313 to 316, and \<open>get\<close>, lines 196 to 205.\<close>

definition unknownProperty :: "string \<Rightarrow> jsval \<Rightarrow> observable \<Rightarrow> jsval \<times> observable" where
  "unknownProperty key v obj =
     (v, if v \<noteq> Undefined then obj\<lparr>slots := (slots obj)(key \<mapsto> v)\<rparr> else obj)"

text \<open>A call of a property function: recorded, its writes taken over.\<close>

definition callProperty ::
  "property_functions \<Rightarrow> func \<Rightarrow> string \<Rightarrow> jsval \<Rightarrow> observable \<Rightarrow> jsval \<times> observable" where
  "callProperty pf f key v obj =
     (fst (pf f key v (slots obj)),
      (record_event (Call f key v) obj)\<lparr>slots := snd (pf f key v (slots obj))\<rparr>)"

definition get :: "property_functions \<Rightarrow> string \<Rightarrow> observable \<Rightarrow> jsval \<times> observable" where
  "get pf key obj =
     (case slot obj key of
        Undefined \<Rightarrow> unknownProperty key Undefined obj
      | Func f \<Rightarrow>
          if isProperty f then
            (if isCacheable f then
               (if slot obj (cacheKey f) \<noteq> Undefined then (slot obj (cacheKey f), obj)
                else (let (ret, obj1) = callProperty pf f key Undefined obj
                      in (ret, obj1\<lparr>slots := (slots obj1)(cacheKey f \<mapsto> ret)\<rparr>)))
             else callProperty pf f key Undefined obj)
          else (Func f, obj)
      | v \<Rightarrow> (v, obj))"

text \<open>The loop over the cached dependents of a key, last to first.\<close>

fun clearDependents :: "func list \<Rightarrow> (string \<rightharpoonup> jsval) \<Rightarrow> (string \<rightharpoonup> jsval)" where
  "clearDependents [] s = s"
| "clearDependents (f # fs) s =
     clearDependents fs (s(lastSetValueKey f \<mapsto> Undefined, cacheKey f \<mapsto> Undefined))"

definition cachedDependentsOf :: "observable \<Rightarrow> string \<Rightarrow> func list" where
  "cachedDependentsOf obj key =
     (case kvo_cachedDependents obj of
        None \<Rightarrow> []
      | Some cd \<Rightarrow> (case map_of cd key of None \<Rightarrow> [] | Some fs \<Rightarrow> fs))"

definition clearCachedDependents :: "string \<Rightarrow> observable \<Rightarrow> observable" where
  "clearCachedDependents key obj =
     obj\<lparr>slots := clearDependents (rev (cachedDependentsOf obj key)) (slots obj)\<rparr>"

text \<open>The three branches of \<open>set\<close>: a computed property, an unknown key, a plain value.\<close>

definition setComputed ::
  "property_functions \<Rightarrow> func \<Rightarrow> string \<Rightarrow> jsval \<Rightarrow> observable \<Rightarrow> observable" where
  "setComputed pf f key v obj =
     (let notify = automaticallyNotifies obj key in
      if isVolatile f \<or> slot obj (lastSetValueKey f) \<noteq> v then
        (let obj1 = obj\<lparr>slots := (slots obj)(lastSetValueKey f \<mapsto> v)\<rparr>;
             obj2 = (if notify then propertyWillChange key obj1 else obj1);
             (ret, obj3) = callProperty pf f key v obj2;
             obj4 = (if isCacheable f
                     then obj3\<lparr>slots := (slots obj3)(cacheKey f \<mapsto> ret)\<rparr> else obj3)
         in if notify then propertyDidChange key obj4 else obj4)
      else obj)"

definition setUnknown :: "string \<Rightarrow> jsval \<Rightarrow> observable \<Rightarrow> observable" where
  "setUnknown key v obj =
     (let notify = automaticallyNotifies obj key;
          obj1 = (if notify then propertyWillChange key obj else obj);
          obj2 = snd (unknownProperty key v obj1)
      in if notify then propertyDidChange key obj2 else obj2)"

definition setPlain :: "string \<Rightarrow> jsval \<Rightarrow> observable \<Rightarrow> observable" where
  "setPlain key v obj =
     (let notify = automaticallyNotifies obj key in
      if slot obj key \<noteq> v then
        (let obj1 = (if notify then propertyWillChange key obj else obj);
             obj2 = obj1\<lparr>slots := (slots obj1)(key \<mapsto> v)\<rparr>
         in if notify then propertyDidChange key obj2 else obj2)
      else obj)"

text \<open>
  \<open>set\<close>, lines 254 to 300. At a few keys its last loop raises instead of
  returning; \<open>setRaises\<close> below tells where.
\<close>

definition set' :: "property_functions \<Rightarrow> string \<Rightarrow> jsval \<Rightarrow> observable \<Rightarrow> observable" where
  "set' pf key v obj =
     clearCachedDependents key
       (case slot obj key of
          Func f \<Rightarrow> if isProperty f then setComputed pf f key v obj else setPlain key v obj
        | Undefined \<Rightarrow> setUnknown key v obj
        | _ \<Rightarrow> setPlain key v obj)"

subsection \<open>Dependent keys and observers\<close>

text \<open>
  A hash of queues: \<open>queue = hash[dep]; if (!queue) queue = hash[dep] = []; queue.push(x)\<close>.
  The hash is a plain object: for a key \<open>dep\<close> that names a member every
  object inherits the code finds that member for the queue and \<open>push\<close>
  raises, so nothing is ever registered under such a key. The model is for the
  other keys.
\<close>

definition pushTo :: "string \<Rightarrow> 'a \<Rightarrow> (string \<times> 'a list) list \<Rightarrow> (string \<times> 'a list) list" where
  "pushTo dep x h =
     (if map_of h dep = None then h @ [(dep, [x])]
      else map (\<lambda>(k, q). if k = dep then (k, q @ [x]) else (k, q)) h)"

text \<open>The body of the loops of \<open>registerDependentKey\<close> (lines 436 to 495) for one key depended on.\<close>

definition registerDependent :: "string \<Rightarrow> string \<Rightarrow> observable \<Rightarrow> observable" where
  "registerDependent key dep obj =
     (let obj1 = obj\<lparr>kvo_dependents :=
                       Some (pushTo dep key (case kvo_dependents obj of
                                               None \<Rightarrow> [] | Some d \<Rightarrow> d))\<rparr>
      in case slot obj1 key of
           Func f \<Rightarrow>
             if isCacheable f
             then obj1\<lparr>kvo_cachedDependents :=
                         Some (pushTo dep f (case kvo_cachedDependents obj1 of
                                               None \<Rightarrow> [] | Some c \<Rightarrow> c))\<rparr>
             else obj1
         | _ \<Rightarrow> obj1)"

text \<open>An argument of \<open>registerDependentKey\<close> after the key: a key or an array of keys.\<close>

datatype dependency = OneKey string | KeyArray "string list"

fun dependencyKeys :: "dependency \<Rightarrow> string list" where
  "dependencyKeys (OneKey d) = [d]"
| "dependencyKeys (KeyArray ds) = rev ds"

text \<open>Both loops run from the last element to the first.\<close>

definition registerDependentKey :: "string \<Rightarrow> dependency list \<Rightarrow> observable \<Rightarrow> observable" where
  "registerDependentKey key deps obj =
     (let obj1 = (if kvo_dependents obj = None then obj\<lparr>kvo_dependents := Some []\<rparr> else obj)
      in foldl (\<lambda>ob d. registerDependent key d ob) obj1
           (concat (map dependencyKeys (rev deps))))"

text \<open>
  \<open>addObserver\<close> for a key without a dot, with the method given as a function.
  Modelled from the spec where it adds to the observer set: a pair of target and
  method already registered for the key is not added again.
\<close>

definition addObserver :: "string \<Rightarrow> nat option \<Rightarrow> nat \<Rightarrow> observable \<Rightarrow> observable" where
  "addObserver key target method obj =
     (let ms = (case kvo_observers obj key of None \<Rightarrow> [] | Some ms \<Rightarrow> ms);
          ms' = (if \<exists>m \<in> set ms. m_target m = target \<and> m_method m = method then ms
                 else ms @ [\<lparr>m_target = target, m_method = method, m_stamp = None\<rparr>])
      in obj\<lparr>kvo_observers := (kvo_observers obj)(key \<mapsto> ms'),
              kvo_observed_keys := setAdd key (kvo_observed_keys obj)\<rparr>)"

text \<open>A new object with the given slots.\<close>

definition newObservable :: "(string \<rightharpoonup> jsval) \<Rightarrow> observable" where
  "newObservable s =
     \<lparr>slots = s, automaticallyNotifies = (\<lambda>key. True), isObserveringSuspended = False,
      kvo_changeLevel = None, kvo_changes = None, kvo_altChanges = None,
      kvo_revision = None, propertyRevision = 1,
      kvo_dependents = None, kvo_cachedDependents = None,
      kvo_observers = Map.empty, kvo_observed_keys = [], kvo_local = Map.empty,
      trace = []\<rparr>"

subsection \<open>Sequences of calls\<close>

text \<open>
  The calls that touch the change level, for statements about any sequence of
  them: \<open>beginPropertyChanges\<close>, \<open>endPropertyChanges\<close>, a flush
  (\<open>_notifyPropertyObservers\<close>, with or without a key) and
  \<open>propertyDidChange\<close>.
\<close>

datatype level_op = OpBegin | OpEnd | OpFlush "string option" | OpDidChange string

fun applyOp :: "level_op \<Rightarrow> observable \<Rightarrow> observable" where
  "applyOp OpBegin obj = beginPropertyChanges obj"
| "applyOp OpEnd obj = endPropertyChanges obj"
| "applyOp (OpFlush key) obj = notifyPropertyObservers key obj"
| "applyOp (OpDidChange key) obj = propertyDidChange key obj"

fun applyOps :: "level_op list \<Rightarrow> observable \<Rightarrow> observable" where
  "applyOps [] obj = obj"
| "applyOps (x # xs) obj = applyOps xs (applyOp x obj)"

subsection \<open>Repeated reads\<close>

text \<open>\<open>get(key)\<close> called \<open>n\<close> times in a row, and the number of recorded calls
  of a property function as a getter.\<close>

fun getTimes :: "property_functions \<Rightarrow> string \<Rightarrow> nat \<Rightarrow> observable \<Rightarrow> observable" where
  "getTimes pf key 0 obj = obj"
| "getTimes pf key (Suc n) obj = getTimes pf key n (snd (get pf key obj))"

definition getterCalls :: "func \<Rightarrow> string \<Rightarrow> observable \<Rightarrow> nat" where
  "getterCalls f key obj = length (filter (\<lambda>e. e = Call f key Undefined) (trace obj))"

subsection \<open>An example object\<close>

text \<open>
  Three computed properties and what their functions do: \<open>nothing\<close> always
  returns \<open>undefined\<close>; \<open>greeting\<close> returns the value of the slot
  \<open>first\<close>; \<open>balance\<close> stores a value it is given in the slot
  \<open>_balance\<close> and returns the value of that slot. All are cacheable and
  none is volatile. \<open>greeting\<close> and \<open>nothing\<close> are registered as
  dependent on \<open>first\<close>, \<open>balance\<close> on \<open>rate\<close>.
\<close>

definition computedProperty :: "nat \<Rightarrow> string \<Rightarrow> func" where
  "computedProperty i guid =
     \<lparr>fid = i, isProperty = True, isCacheable = True, isVolatile = False,
      cacheKey = ''__cache__'' @ guid, lastSetValueKey = ''__lastValue__'' @ guid\<rparr>"

definition nothingProperty :: func where
  "nothingProperty = computedProperty 1 ''n''"

definition greetingProperty :: func where
  "greetingProperty = computedProperty 2 ''g''"

definition balanceProperty :: func where
  "balanceProperty = computedProperty 3 ''b''"

definition example_pf :: property_functions where
  "example_pf f key v s =
     (if fid f = 1 then (Undefined, s)
      else if fid f = 2 then (case s ''first'' of None \<Rightarrow> (Undefined, s) | Some x \<Rightarrow> (x, s))
      else if v \<noteq> Undefined then (v, s(''_balance'' \<mapsto> v))
      else (case s ''_balance'' of None \<Rightarrow> (Undefined, s) | Some x \<Rightarrow> (x, s)))"

definition example_object :: observable where
  "example_object =
     registerDependentKey ''balance'' [OneKey ''rate'']
       (registerDependentKey ''nothing'' [OneKey ''first'']
          (registerDependentKey ''greeting'' [KeyArray [''first'']]
             (newObservable
                [''first'' \<mapsto> Str ''Ann'',
                 ''nothing'' \<mapsto> Func nothingProperty,
                 ''greeting'' \<mapsto> Func greetingProperty,
                 ''balance'' \<mapsto> Func balanceProperty])))"


subsection \<open>Batches\<close>

text \<open>
  The table \<open>_kvo_cachedDependents\<close> is a plain object, as \<open>_kvo_dependents\<close>
  is. Read at a key it has no entry for, it yields the member of that name that
  every object inherits, where there is one. The flush takes the length of what
  it finds and adds what is at the indices below it to the set of changes; at an
  inherited member these are \<open>undefined\<close>, which the set does not take, so
  the flush goes on as without an entry. The last loop of \<open>set\<close> (lines 288
  to 296) takes the length and reads \<open>func.cacheKey\<close> of what is at each
  index below it: an inherited function has the number of its parameters for
  its length and \<open>undefined\<close> at every index, so at the name of one with
  parameters \<open>set\<close> raises a \<open>TypeError\<close> there, after everything else
  it does. \<open>setRaises\<close> tells whether \<open>set(key, ...)\<close> ends so;
  \<open>set'\<close> is the state \<open>set\<close> has reached by then, and the state it
  returns with otherwise.
\<close>

definition inheritedWithParameters :: "string list" where
  "inheritedWithParameters =
     [''constructor'', ''hasOwnProperty'', ''isPrototypeOf'', ''propertyIsEnumerable'',
      ''__defineGetter__'', ''__defineSetter__'', ''__lookupGetter__'', ''__lookupSetter__'']"

definition setRaises :: "observable \<Rightarrow> string \<Rightarrow> bool" where
  "setRaises obj key =
     (case kvo_cachedDependents obj of
        None \<Rightarrow> False
      | Some cd \<Rightarrow>
         (case map_of cd key of
            Some fs \<Rightarrow> False
          | None \<Rightarrow> key \<in> set inheritedWithParameters))"

text \<open>
  A batch on one key: \<open>beginPropertyChanges\<close>, the key set to each of the
  values in turn, \<open>endPropertyChanges\<close>; \<open>None\<close> when a \<open>set\<close> raises.
  \<open>pendingOf\<close> is the pending set, \<open>observersOf\<close> the registrations on a
  key, \<open>notificationsFor\<close> picks from a stretch of the trace the calls of
  observers registered on a key, and \<open>isObserverCall\<close> tells the calls of
  observers of any kind from the other events.
\<close>

fun setAll ::
  "property_functions \<Rightarrow> string \<Rightarrow> jsval list \<Rightarrow> observable \<Rightarrow> observable option" where
  "setAll pf key [] obj = Some obj"
| "setAll pf key (v # vs) obj =
     (if setRaises obj key then None else setAll pf key vs (set' pf key v obj))"

definition batch ::
  "property_functions \<Rightarrow> string \<Rightarrow> jsval list \<Rightarrow> observable \<Rightarrow> observable option" where
  "batch pf key vs obj =
     map_option endPropertyChanges (setAll pf key vs (beginPropertyChanges obj))"





definition observersOf :: "observable \<Rightarrow> string \<Rightarrow> member list" where
  "observersOf obj key = (case kvo_observers obj key of None \<Rightarrow> [] | Some ms \<Rightarrow> ms)"

fun isNotificationFor :: "string \<Rightarrow> obs_event \<Rightarrow> bool" where
  "isNotificationFor key (Notified t m k r) = (k = key)"
| "isNotificationFor key e = False"

definition notificationsFor :: "string \<Rightarrow> obs_event list \<Rightarrow> obs_event list" where
  "notificationsFor key evs = filter (isNotificationFor key) evs"

definition notification :: "string \<Rightarrow> int \<Rightarrow> member \<Rightarrow> obs_event" where
  "notification key r m = Notified (m_target m) (m_method m) key r"

text \<open>
  The state of an object outside a flush, as far as a key's observers go: every
  registration on the key that carries a stamp carries one below
  \<open>propertyRevision\<close> (a flush stamps with the revision it then counts up),
  and the spare set \<open>_kvo_altChanges\<close> is unset or empty (a flush leaves the
  set it emptied there).
\<close>

definition stampsBelow :: "int \<Rightarrow> member list \<Rightarrow> bool" where
  "stampsBelow r ms = list_all (\<lambda>m. case m_stamp m of None \<Rightarrow> True | Some s \<Rightarrow> s < r) ms"

definition settled :: "observable \<Rightarrow> string \<Rightarrow> bool" where
  "settled obj key =
     (stampsBelow (propertyRevision obj) (observersOf obj key)
      \<and> (case kvo_altChanges obj of None \<Rightarrow> True | Some c \<Rightarrow> c = []))"



text \<open>
  The example object with two observers registered on \<open>first\<close> and one on
  \<open>greeting\<close>.
\<close>

definition watched_object :: observable where
  "watched_object =
     addObserver ''first'' None 10
       (addObserver ''first'' (Some 7) 11
          (addObserver ''greeting'' None 12 example_object))"

section \<open>The event router: resolution order\<close>

lemma firstRegExpHandler_first:
  "hs = pre @ h # post \<Longrightarrow> \<forall>p \<in> set pre. \<not> rh_regexp p event \<Longrightarrow> rh_regexp h event
    \<Longrightarrow> firstRegExpHandler event hs = Some h"
  by (induction pre arbitrary: hs) auto

lemma firstRegExpHandler_none:
  "\<forall>p \<in> set hs. \<not> rh_regexp p event \<Longrightarrow> firstRegExpHandler event hs = None"
  by (induction hs) auto

lemma firstRegExpHandler_find:
  "firstRegExpHandler event hs = find (\<lambda>h. rh_regexp h event) hs"
  by (induction hs) auto

lemma hasEntry_registered:
  "event \<notin> set objectPrototypeMembers \<Longrightarrow> hasEntry registry event = (registry event \<noteq> None)"
  by (simp add: hasEntry_def split: option.splits)

lemma hasEntry_inherited:
  "event \<in> set objectPrototypeMembers \<Longrightarrow> hasEntry registry event"
  by (simp add: hasEntry_def split: option.splits)

text \<open>
  For an event whose name is not one every object inherits,
  \<open>tryToHandleEvent\<close> resolves a handler in this order, first match wins:
  (1) an event named like a registered event handler or state observe handler is
  refused with a warning and no call; (2) a function member of the same name is
  called with the two arguments; (3) the handler registered for the literal
  event name; (4) the first pattern handler, in registration order, whose
  pattern matches; (5) the \<open>unknownEvent\<close> function; otherwise nothing is
  called and the result is \<open>NO\<close>. A dispatched handler counts as having
  handled the event unless it returns exactly \<open>false\<close>: \<open>undefined\<close> counts
  as handled.
\<close>

lemma tryToHandleEvent_order:
  assumes "event \<notin> set objectPrototypeMembers"
  shows
  "(registeredEventHandlers st event \<noteq> None \<longrightarrow>
      tryToHandleEvent hret st event a1 a2
        = (False, [LogWarning (EventIsRegisteredHandler event)]))
   \<and> (registeredEventHandlers st event = None
        \<and> registeredStateObserveHandlers st event \<noteq> None \<longrightarrow>
      tryToHandleEvent hret st event a1 a2
        = (False, [LogWarning (EventIsStateObserveHandler event)]))
   \<and> (registeredEventHandlers st event = None
        \<and> registeredStateObserveHandlers st event = None \<longrightarrow>
       (member_of st event = Func f \<longrightarrow>
          tryToHandleEvent hret st event a1 a2 = dispatch hret event event f [a1, a2])
     \<and> (asFunction (member_of st event) = None \<longrightarrow>
         (registeredStringEventHandlers st event = Some sh \<longrightarrow>
            tryToHandleEvent hret st event a1 a2
              = dispatch hret event (sh_name sh) (sh_handler sh) [Str event, a1, a2])
       \<and> (registeredStringEventHandlers st event = None \<longrightarrow>
           (registeredRegExpEventHandlers st = pre @ rh # post
              \<and> (\<forall>p \<in> set pre. \<not> rh_regexp p event) \<and> rh_regexp rh event \<longrightarrow>
              tryToHandleEvent hret st event a1 a2
                = dispatch hret event (rh_name rh) (rh_handler rh) [Str event, a1, a2])
         \<and> ((\<forall>p \<in> set (registeredRegExpEventHandlers st). \<not> rh_regexp p event) \<longrightarrow>
             (member_of st ''unknownEvent'' = Func u \<longrightarrow>
                tryToHandleEvent hret st event a1 a2
                  = dispatch hret event ''unknownEvent'' u [Str event, a1, a2])
           \<and> (asFunction (member_of st ''unknownEvent'') = None \<longrightarrow>
                tryToHandleEvent hret st event a1 a2 = (False, []))))))
   \<and> fst (dispatch hret event hname g args) = (hret g args \<noteq> Bool False)
   \<and> snd (dispatch hret event hname g args)
        = [WillTryToHandleEvent event hname, Invoke g args,
           DidTryToHandleEvent event hname (hret g args \<noteq> Bool False)]"
proof -
  have pat: "firstRegExpHandler event (registeredRegExpEventHandlers st) = Some rh"
    if "registeredRegExpEventHandlers st = pre @ rh # post"
      and "\<forall>p \<in> set pre. \<not> rh_regexp p event" and "rh_regexp rh event"
    using that by (rule firstRegExpHandler_first)
  have nopat: "firstRegExpHandler event (registeredRegExpEventHandlers st) = None"
    if "\<forall>p \<in> set (registeredRegExpEventHandlers st). \<not> rh_regexp p event"
    using that by (rule firstRegExpHandler_none)
  note own = hasEntry_registered [OF assms]
  show ?thesis
    using pat nopat
    by (auto simp: tryToHandleEvent_def dispatch_def Let_def own)
qed

lemma tryToHandleEvent_order_example:
  "tryToHandleEvent example_hret example_state ''handlerA'' Null Null
      = (False, [LogWarning (EventIsRegisteredHandler ''handlerA'')])
   \<and> tryToHandleEvent example_hret example_state ''obs'' Null Null
      = (False, [LogWarning (EventIsStateObserveHandler ''obs'')])
   \<and> tryToHandleEvent example_hret example_state ''foo'' (Num 1) (Num 2)
      = (False, [WillTryToHandleEvent ''foo'' ''foo'', Invoke (plainFunction 1) [Num 1, Num 2],
                 DidTryToHandleEvent ''foo'' ''foo'' False])
   \<and> tryToHandleEvent example_hret example_state ''frozen'' (Num 1) (Num 2)
      = (True, [WillTryToHandleEvent ''frozen'' ''handlerA'',
                Invoke (plainFunction 2) [Str ''frozen'', Num 1, Num 2],
                DidTryToHandleEvent ''frozen'' ''handlerA'' True])
   \<and> tryToHandleEvent example_hret example_state ''num7'' (Num 1) (Num 2)
      = (True, [WillTryToHandleEvent ''num7'' ''handlerA'',
                Invoke (plainFunction 2) [Str ''num7'', Num 1, Num 2],
                DidTryToHandleEvent ''num7'' ''handlerA'' True])
   \<and> tryToHandleEvent example_hret example_state ''bar'' (Num 1) (Num 2)
      = (True, [WillTryToHandleEvent ''bar'' ''unknownEvent'',
                Invoke (plainFunction 9) [Str ''bar'', Num 1, Num 2],
                DidTryToHandleEvent ''bar'' ''unknownEvent'' True])"
  by (simp add: tryToHandleEvent_def hasEntry_def objectPrototypeMembers_def
        example_state_def registerStateObserveHandler_def sc_registerEventHandler_def
        newState_def example_hret_def member_of_def dispatch_def plainFunction_def)

text \<open>
  An event named like a member every object inherits is refused at the first
  test, whatever the node has registered and whatever its members are, and
  \<open>respondsToEvent\<close> answers no.
\<close>

lemma tryToHandleEvent_inherited_name:
  assumes "event \<in> set objectPrototypeMembers"
  shows "tryToHandleEvent hret st event a1 a2
           = (False, [LogWarning (EventIsRegisteredHandler event)])"
    and "\<not> respondsToEvent st event"
  by (simp_all add: tryToHandleEvent_def respondsToEvent_def hasEntry_inherited [OF assms])

text \<open>
  Claim C3. The claim fails for the event \<open>toString\<close>. The node has registered
  no event handler and no state observe handler, and it has a method
  \<open>toString\<close>, so by the claim's order the method is called (step 2). The first
  test of \<open>tryToHandleEvent\<close> (line 2223) reads the registry of event handlers
  at \<open>toString\<close>, finds the function every object inherits, and refuses the
  event with the warning that it is a registered event handler; the method is
  not called.
\<close>

theorem tryToHandleEvent_refuses_inherited_name:
  "registeredEventHandlers plain_state ''toString'' = None
   \<and> registeredStateObserveHandlers plain_state ''toString'' = None
   \<and> member_of plain_state ''toString'' = Func (plainFunction 4)
   \<and> tryToHandleEvent example_hret plain_state ''toString'' Null Null
       = (False, [LogWarning (EventIsRegisteredHandler ''toString'')])
   \<and> dispatch example_hret ''toString'' ''toString'' (plainFunction 4) [Null, Null]
       = (True, [WillTryToHandleEvent ''toString'' ''toString'',
                 Invoke (plainFunction 4) [Null, Null],
                 DidTryToHandleEvent ''toString'' ''toString'' True])"
  by (simp add: tryToHandleEvent_def hasEntry_def objectPrototypeMembers_def
        plain_state_def newState_def member_of_def dispatch_def plainFunction_def
        example_hret_def)


text \<open>
  Claim C8. \<open>respondsToEvent\<close> is to answer whether \<open>tryToHandleEvent\<close>
  would dispatch the event. It tests for a same-named function and for a string
  handler before it tests for a state observe handler of that name, while the
  router tests the state observe handlers first. A state observe handler is a
  function member registered under its own name, so for its name
  \<open>respondsToEvent\<close> answers yes and the router refuses the event without
  calling anything.
\<close>

theorem respondsToEvent_disagrees_on_state_observe_handler:
  "respondsToEvent example_state ''obs''
   \<and> tryToHandleEvent example_hret example_state ''obs'' Null Null
       = (False, [LogWarning (EventIsStateObserveHandler ''obs'')])"
  by (simp add: respondsToEvent_def tryToHandleEvent_def hasEntry_def
        objectPrototypeMembers_def example_state_def
        registerStateObserveHandler_def sc_registerEventHandler_def newState_def
        member_of_def plainFunction_def)


lemmas example_lookup_defs =
  getSubstate_def exampleMatcher_def example_root_def example_arena_def newState_def
  notifySubstateNotFound_def matchingPaths_def candidatePaths_def

section \<open>Substate lookup\<close>

text \<open>
  Claim C5, amended. For the empty string, and for an expression for which the
  matcher has no token, the result is \<open>null\<close> and a callback is not called.
  For every other path expression: when no registered path matches, the result
  is \<open>null\<close>, or the result of the callback, called without paths, when one
  is given; when exactly one matches, its state is returned; when more than one
  matches and no callback is given, an error is logged and the result is
  \<open>null\<close>; when more than one matches and a callback is given, the result is
  that of the callback, which is called with the paths registered under the
  expression's last part, in their order. The matching paths are among these,
  and when every path registered under the last part matches, they are exactly
  the matching paths.
\<close>

theorem getSubstate_path_expression:
  fixes cb :: "string list option \<Rightarrow> 'r" and c :: "(string list option \<Rightarrow> 'r) option"
  shows
  "(expr = [] \<or> tokens (pm st expr) = [] \<longrightarrow> getSubstate pm st (Str expr) c = (LNull, []))
   \<and> (expr \<noteq> [] \<and> tokens (pm st expr) \<noteq> [] \<longrightarrow>
       (matchingPaths pm st expr = [] \<longrightarrow>
          getSubstate pm st (Str expr) (None :: (string list option \<Rightarrow> 'r) option) = (LNull, [])
        \<and> getSubstate pm st (Str expr) (Some cb) = (LCallback (cb None), []))
     \<and> (matchingPaths pm st expr = [(k, s)] \<longrightarrow> getSubstate pm st (Str expr) c = (LState s, []))
     \<and> (1 < length (matchingPaths pm st expr) \<longrightarrow>
          getSubstate pm st (Str expr) (None :: (string list option \<Rightarrow> 'r) option)
            = (LNull, [AmbiguousSubstate expr (map fst (candidatePaths pm st expr))])
        \<and> getSubstate pm st (Str expr) (Some cb)
            = (LCallback (cb (Some (map fst (candidatePaths pm st expr)))), [])
        \<and> registeredSubstatePaths st (lastPart (pm st expr)) = Some (candidatePaths pm st expr)
        \<and> set (matchingPaths pm st expr) \<subseteq> set (candidatePaths pm st expr)
        \<and> ((\<forall>p \<in> set (candidatePaths pm st expr). matchPath (pm st expr) (fst p)) \<longrightarrow>
             candidatePaths pm st expr = matchingPaths pm st expr)))"
proof -
  let ?none = "None :: (string list option \<Rightarrow> 'r) option"
  let ?keys = "map fst (candidatePaths pm st expr)"
  have empty: "getSubstate pm st (Str expr) c = (LNull, [])"
    if "expr = [] \<or> tokens (pm st expr) = []"
    using that by (auto simp: getSubstate_def Let_def)
  have sub: "set (matchingPaths pm st expr) \<subseteq> set (candidatePaths pm st expr)"
    by (auto simp: matchingPaths_def)
  have all: "candidatePaths pm st expr = matchingPaths pm st expr"
    if "\<forall>p \<in> set (candidatePaths pm st expr). matchPath (pm st expr) (fst p)"
    using that by (simp add: matchingPaths_def case_prod_beta)
  have none: "getSubstate pm st (Str expr) ?none = (LNull, [])"
             "getSubstate pm st (Str expr) (Some cb) = (LCallback (cb None), [])"
    if "expr \<noteq> []" "tokens (pm st expr) \<noteq> []" "matchingPaths pm st expr = []"
    using that
    by (auto simp: getSubstate_def matchingPaths_def candidatePaths_def
          notifySubstateNotFound_def Let_def split: option.splits)
  have one: "getSubstate pm st (Str expr) c = (LState s, [])"
    if "expr \<noteq> []" "tokens (pm st expr) \<noteq> []" "matchingPaths pm st expr = [(k, s)]"
    using that
    by (auto simp: getSubstate_def matchingPaths_def candidatePaths_def
          notifySubstateNotFound_def Let_def split: option.splits)
  have many: "getSubstate pm st (Str expr) ?none = (LNull, [AmbiguousSubstate expr ?keys])"
             "getSubstate pm st (Str expr) (Some cb) = (LCallback (cb (Some ?keys)), [])"
             "registeredSubstatePaths st (lastPart (pm st expr)) = Some (candidatePaths pm st expr)"
    if "expr \<noteq> []" "tokens (pm st expr) \<noteq> []" "1 < length (matchingPaths pm st expr)"
    using that
    by (auto simp: getSubstate_def matchingPaths_def candidatePaths_def
          notifySubstateNotFound_def Let_def split: option.splits)
  show ?thesis
    using empty none one many sub all by blast
qed

theorem getSubstate_path_expression_witness:
  "getSubstate exampleMatcher example_root (Str []) (Some (\<lambda>keys. keys)) = (LNull, [])
   \<and> getSubstate exampleMatcher example_root (Str ''nope'') (Some (\<lambda>keys. keys))
     = (LCallback None, [])
   \<and> getSubstate exampleMatcher example_root (Str ''a.foo'') (Some (\<lambda>keys. keys))
     = (LState 3, [])
   \<and> getSubstate exampleMatcher example_root (Str ''foo'') (Some (\<lambda>keys. keys))
     = (LCallback (Some [''a.foo'', ''b.x.foo'']), [])
   \<and> getSubstate exampleMatcher example_root (Str ''foo'')
        (None :: (string list option \<Rightarrow> string list option) option)
     = (LNull, [AmbiguousSubstate ''foo'' [''a.foo'', ''b.x.foo'']])
   \<and> candidatePaths exampleMatcher example_root ''foo''
     = matchingPaths exampleMatcher example_root ''foo''"
proof -
  have 0: "matchingPaths exampleMatcher example_root ''nope'' = []"
    by (simp add: example_lookup_defs)
  have 1: "matchingPaths exampleMatcher example_root ''a.foo'' = [(''a.foo'', 3)]"
    by (simp add: example_lookup_defs)
  have 2: "matchingPaths exampleMatcher example_root ''foo'' = [(''a.foo'', 3), (''b.x.foo'', 5)]"
    by (simp add: example_lookup_defs)
  have 3: "candidatePaths exampleMatcher example_root ''foo'' = [(''a.foo'', 3), (''b.x.foo'', 5)]"
    by (simp add: example_lookup_defs)
  have m: "matchPath (exampleMatcher example_root ''foo'') ''a.foo''"
          "matchPath (exampleMatcher example_root ''foo'') ''b.x.foo''"
    by (simp_all add: exampleMatcher_def)
  have t: "tokens (exampleMatcher example_root ''nope'') \<noteq> []"
          "tokens (exampleMatcher example_root ''a.foo'') \<noteq> []"
          "tokens (exampleMatcher example_root ''foo'') \<noteq> []"
    by (simp_all add: exampleMatcher_def)
  have a: "getSubstate exampleMatcher example_root (Str []) (Some (\<lambda>keys. keys)) = (LNull, [])"
    using getSubstate_path_expression
            [where pm=exampleMatcher and st=example_root and expr="[]"
               and c="Some (\<lambda>keys. keys)"]
    by simp
  have b: "getSubstate exampleMatcher example_root (Str ''nope'') (Some (\<lambda>keys. keys))
             = (LCallback None, [])"
    using getSubstate_path_expression
            [where pm=exampleMatcher and st=example_root and expr="''nope''"
               and cb="\<lambda>keys. keys"] t(1) 0
    by simp
  have c: "getSubstate exampleMatcher example_root (Str ''a.foo'') (Some (\<lambda>keys. keys))
             = (LState 3, [])"
    using getSubstate_path_expression
            [where pm=exampleMatcher and st=example_root and expr="''a.foo''"
               and c="Some (\<lambda>keys. keys)" and k="''a.foo''" and s=3] t(2) 1
    by simp
  have d: "getSubstate exampleMatcher example_root (Str ''foo'') (Some (\<lambda>keys. keys))
             = (LCallback (Some [''a.foo'', ''b.x.foo'']), [])
           \<and> getSubstate exampleMatcher example_root (Str ''foo'')
                (None :: (string list option \<Rightarrow> string list option) option)
             = (LNull, [AmbiguousSubstate ''foo'' [''a.foo'', ''b.x.foo'']])
           \<and> candidatePaths exampleMatcher example_root ''foo''
             = matchingPaths exampleMatcher example_root ''foo''"
    using getSubstate_path_expression
            [where pm=exampleMatcher and st=example_root and expr="''foo''"
               and cb="\<lambda>keys. keys"] t(3) m
    by (simp add: 2 3)
  from a b c d show ?thesis by blast
qed

text \<open>
  As the claim is stated it fails in two places. At the empty string
  \<open>getSubstate\<close> returns \<open>null\<close> for every falsy value before it looks at
  the callback, so a callback given with the empty expression is never called
  (line 1847). And where more than one path matches, the callback is not given
  the matching paths alone: under \<open>wide_root\<close> the expression \<open>x.foo\<close>
  matches \<open>b.x.foo\<close> and \<open>c.x.foo\<close>, and the callback is called with
  \<open>a.foo\<close> as well (line 1880 collects every key of the table), which
  is not what the description of the callback at line 1835 says.
\<close>

theorem getSubstate_counterexample:
  "matchingPaths exampleMatcher example_root [] = []
   \<and> getSubstate exampleMatcher example_root (Str []) (Some (\<lambda>keys. True)) = (LNull, [])
   \<and> getSubstate exampleMatcher example_root (Str []) (Some (\<lambda>keys. True))
       \<noteq> (LCallback ((\<lambda>keys. True) None), [])
   \<and> map fst (matchingPaths exampleMatcher wide_root ''x.foo'') = [''b.x.foo'', ''c.x.foo'']
   \<and> getSubstate exampleMatcher wide_root (Str ''x.foo'') (Some (\<lambda>keys. keys))
       = (LCallback (Some [''a.foo'', ''b.x.foo'', ''c.x.foo'']), [])"
  by (simp add: example_lookup_defs wide_root_def)


section \<open>Transition requests with an invalid target\<close>

text \<open>
  Claim C6. When \<open>gotoSubstate\<close> is given a value that \<open>getSubstate\<close>
  resolves to no state, or \<open>gotoHistoryState\<close> a value that \<open>getState\<close>
  resolves to no state, the call returns, an error is logged after those of the
  lookup, and nothing else happens: the result does not depend on the
  orchestrator, which is not called, and every node is as it was.
\<close>

theorem goto_invalid_target_is_abandoned:
  "(nodes sc sid = Some st
      \<and> (\<forall>t. fst (getSubstate pm st v (None :: (string list option \<Rightarrow> unit) option)) \<noteq> LState t) \<longrightarrow>
      gotoSubstate orch pm sid v ctx sc
        = Some (stateLogErrors
                 (snd (getSubstate pm st v (None :: (string list option \<Rightarrow> unit) option))
                    @ [CanNotGoToState v sid]) sc))
   \<and> (getState pm (nodes sc) sid v = Some (None, errs) \<longrightarrow>
      gotoHistoryState orch pm sid v recursive ctx sc
        = Some (stateLogErrors (errs @ [CanNotGoToHistoryState v sid]) sc))
   \<and> nodes (stateLogErrors es sc) = nodes sc
   \<and> errorLog (stateLogErrors es sc) = errorLog sc @ es"
  by (auto simp: gotoSubstate_def gotoHistoryState_def stateLogErrors_def
        split: prod.splits lookup.splits)

theorem goto_invalid_target_is_abandoned_witness:
  "gotoSubstate example_orchestrator exampleMatcher 0 (Str ''nope'') Undefined example_statechart
     = Some (example_statechart\<lparr>errorLog := [CanNotGoToState (Str ''nope'') 0]\<rparr>)
   \<and> gotoSubstate example_orchestrator exampleMatcher 0 (Str ''foo'') Undefined example_statechart
     = Some (example_statechart
              \<lparr>errorLog := [AmbiguousSubstate ''foo'' [''a.foo'', ''b.x.foo''],
                            CanNotGoToState (Str ''foo'') 0]\<rparr>)
   \<and> gotoHistoryState example_orchestrator exampleMatcher 3 (Str ''nope'') Undefined Undefined
        example_statechart
     = Some (example_statechart\<lparr>errorLog := [CanNotGoToHistoryState (Str ''nope'') 3]\<rparr>)"
proof -
  have n: "nodes example_statechart 0 = Some example_root"
    by (simp add: example_statechart_def example_root_def example_arena_def)
  have a: "getSubstate exampleMatcher example_root (Str ''nope'')
             (None :: (string list option \<Rightarrow> unit) option) = (LNull, [])"
    by (simp add: example_lookup_defs)
  have b: "getSubstate exampleMatcher example_root (Str ''foo'')
             (None :: (string list option \<Rightarrow> unit) option)
             = (LNull, [AmbiguousSubstate ''foo'' [''a.foo'', ''b.x.foo'']])"
    by (simp add: example_lookup_defs)
  have e: "errorLog example_statechart = []"
    by (simp add: example_statechart_def)
  have c: "getState exampleMatcher (nodes example_statechart) 3 (Str ''nope'') = Some (None, [])"
    by (simp add: getState.simps example_statechart_def example_lookup_defs)
  show ?thesis
    using goto_invalid_target_is_abandoned
            [where sc=example_statechart and sid=0 and st=example_root and pm=exampleMatcher
               and v="Str ''nope''" and orch=example_orchestrator and ctx=Undefined]
          goto_invalid_target_is_abandoned
            [where sc=example_statechart and sid=0 and st=example_root and pm=exampleMatcher
               and v="Str ''foo''" and orch=example_orchestrator and ctx=Undefined]
          goto_invalid_target_is_abandoned
            [where sc=example_statechart and sid=3 and pm=exampleMatcher
               and v="Str ''nope''" and orch=example_orchestrator and ctx=Undefined
               and recursive=Undefined and errs="[]"]
    by (simp add: n a b c e stateLogErrors_def)
qed

section \<open>Observable objects: what the flush leaves alone\<close>

lemma notifyLoop_fields [simp]:
  "kvo_changeLevel (notifyLoop key obj) = kvo_changeLevel obj"
  "kvo_revision (notifyLoop key obj) = kvo_revision obj"
  "kvo_dependents (notifyLoop key obj) = kvo_dependents obj"
  "kvo_cachedDependents (notifyLoop key obj) = kvo_cachedDependents obj"
  "kvo_local (notifyLoop key obj) = kvo_local obj"
  "kvo_observed_keys (notifyLoop key obj) = kvo_observed_keys obj"
  "automaticallyNotifies (notifyLoop key obj) = automaticallyNotifies obj"
  "isObserveringSuspended (notifyLoop key obj) = isObserveringSuspended obj"
proof (induction key obj rule: notifyLoop.induct)
  case (1 key obj)
  {
    case 1 show ?case using "1.IH"(1) by (subst notifyLoop.simps) simp
  next
    case 2 show ?case using "1.IH"(2) by (subst notifyLoop.simps) simp
  next
    case 3 show ?case using "1.IH"(3) by (subst notifyLoop.simps) simp
  next
    case 4 show ?case using "1.IH"(4) by (subst notifyLoop.simps) simp
  next
    case 5 show ?case using "1.IH"(5) by (subst notifyLoop.simps) simp
  next
    case 6 show ?case using "1.IH"(6) by (subst notifyLoop.simps) simp
  next
    case 7 show ?case using "1.IH"(7) by (subst notifyLoop.simps) simp
  next
    case 8 show ?case using "1.IH"(8) by (subst notifyLoop.simps) simp
  }
qed

lemma notifyPropertyObservers_fields [simp]:
  "kvo_revision (notifyPropertyObservers key obj) = kvo_revision obj"
  "kvo_dependents (notifyPropertyObservers key obj) = kvo_dependents obj"
  "kvo_cachedDependents (notifyPropertyObservers key obj) = kvo_cachedDependents obj"
  "kvo_local (notifyPropertyObservers key obj) = kvo_local obj"
  "kvo_observed_keys (notifyPropertyObservers key obj) = kvo_observed_keys obj"
  "automaticallyNotifies (notifyPropertyObservers key obj) = automaticallyNotifies obj"
  "isObserveringSuspended (notifyPropertyObservers key obj) = isObserveringSuspended obj"
  by (simp_all add: notifyPropertyObservers_def Let_def)

lemma notifyPropertyObservers_level:
  "kvo_changeLevel (notifyPropertyObservers key obj) = Some (lowerLevel (Some (levelOf obj + 1)))"
  by (simp add: notifyPropertyObservers_def Let_def)

lemma countChange_fields [simp]:
  "kvo_revision (countChange key obj) = Some (revisionOf obj + 1)"
  "kvo_changeLevel (countChange key obj) = kvo_changeLevel obj"
  "kvo_changes (countChange key obj) = kvo_changes obj"
  "kvo_altChanges (countChange key obj) = kvo_altChanges obj"
  "propertyRevision (countChange key obj) = propertyRevision obj"
  "kvo_dependents (countChange key obj) = kvo_dependents obj"
  "kvo_cachedDependents (countChange key obj) = kvo_cachedDependents obj"
  "kvo_observers (countChange key obj) = kvo_observers obj"
  "kvo_local (countChange key obj) = kvo_local obj"
  "kvo_observed_keys (countChange key obj) = kvo_observed_keys obj"
  "automaticallyNotifies (countChange key obj) = automaticallyNotifies obj"
  "isObserveringSuspended (countChange key obj) = isObserveringSuspended obj"
  "trace (countChange key obj) = trace obj @ [DidChange key]"
  by (simp_all add: countChange_def Let_def record_event_def split: jsval.splits)

lemma levelOf_countChange [simp]: "levelOf (countChange key obj) = levelOf obj"
  by (simp add: levelOf_def)

section \<open>Revision and change level\<close>

text \<open>
  Claim C4. Every call of \<open>propertyDidChange\<close> makes \<open>_kvo_revision\<close> one
  more than it was (counting an unset revision as zero), when the change is
  only queued (the change level is positive or observing is suspended: the key
  is then in the pending set and no flush has run) and when it is delivered at
  once (the call is then the flush for the key, run after the count).
\<close>

theorem propertyDidChange_increments_revision:
  "kvo_revision (propertyDidChange key obj) = Some (revisionOf obj + 1)
   \<and> revisionOf (propertyDidChange key obj) = revisionOf obj + 1
   \<and> (0 < levelOf obj \<or> isObserveringSuspended obj \<longrightarrow>
        key \<in> set (the (kvo_changes (propertyDidChange key obj)))
        \<and> propertyRevision (propertyDidChange key obj) = propertyRevision obj)
   \<and> (\<not> 0 < levelOf obj \<and> \<not> isObserveringSuspended obj \<longrightarrow>
        propertyDidChange key obj = notifyPropertyObservers (Some key) (countChange key obj))"
  by (simp add: propertyDidChange_def revisionOf_def Let_def record_event_def setAdd_set)


theorem propertyDidChange_increments_revision_witness:
  "kvo_revision (propertyDidChange ''a'' (beginPropertyChanges (newObservable Map.empty))) = Some 1
   \<and> ''a'' \<in> set (the (kvo_changes
         (propertyDidChange ''a'' (beginPropertyChanges (newObservable Map.empty)))))
   \<and> kvo_revision (propertyDidChange ''a'' (newObservable Map.empty)) = Some 1
   \<and> propertyDidChange ''a'' (newObservable Map.empty)
       = notifyPropertyObservers (Some ''a'') (countChange ''a'' (newObservable Map.empty))"
  using propertyDidChange_increments_revision
          [of "''a''" "beginPropertyChanges (newObservable Map.empty)"]
        propertyDidChange_increments_revision [of "''a''" "newObservable Map.empty"]
  by (simp add: levelOf_def revisionOf_def beginPropertyChanges_def newObservable_def)

lemma levelOf_begin: "levelOf (beginPropertyChanges obj) = levelOf obj + 1"
  by (simp add: beginPropertyChanges_def levelOf_def)

lemma levelOf_flush:
  "0 \<le> levelOf obj \<Longrightarrow> levelOf (notifyPropertyObservers key obj) = levelOf obj"
  by (simp add: notifyPropertyObservers_level levelOf_def lowerLevel_def)

lemma levelOf_end:
  "0 \<le> levelOf obj \<Longrightarrow>
   levelOf (endPropertyChanges obj) = (if levelOf obj = 0 then 0 else levelOf obj - 1)"
  by (auto simp: endPropertyChanges_def Let_def notifyPropertyObservers_level levelOf_def
        lowerLevel_def split: option.splits)

lemma levelOf_propertyDidChange:
  "0 \<le> levelOf obj \<Longrightarrow> levelOf (propertyDidChange key obj) = levelOf obj"
proof (cases "0 < levelOf obj \<or> isObserveringSuspended obj")
  case True
  then show ?thesis
    by (auto simp: propertyDidChange_def Let_def record_event_def levelOf_def)
next
  case False
  assume "0 \<le> levelOf obj"
  then have "levelOf (notifyPropertyObservers (Some key) (countChange key obj)) = levelOf obj"
    using levelOf_flush[of "countChange key obj" "Some key"] by simp
  with False show ?thesis
    by (simp add: propertyDidChange_def Let_def)
qed

lemma levelOf_applyOp: "0 \<le> levelOf obj \<Longrightarrow> 0 \<le> levelOf (applyOp x obj)"
  by (cases x) (simp_all add: levelOf_begin levelOf_end levelOf_flush levelOf_propertyDidChange)

text \<open>
  Claim C9. The change level never becomes negative under any sequence of
  \<open>beginPropertyChanges\<close>, \<open>endPropertyChanges\<close>, flushes and
  \<open>propertyDidChange\<close>; \<open>endPropertyChanges\<close> on an object whose level is
  zero or unset leaves it at zero; and a flush leaves the level as it found it.
\<close>

theorem changeLevel_never_negative:
  "(0 \<le> levelOf obj \<longrightarrow> 0 \<le> levelOf (applyOps ops obj))
   \<and> (levelOf obj = 0 \<longrightarrow> kvo_changeLevel (endPropertyChanges obj) = Some 0)
   \<and> (0 \<le> levelOf obj \<longrightarrow> levelOf (notifyPropertyObservers key obj) = levelOf obj)"
proof (intro conjI impI)
  show "0 \<le> levelOf (applyOps ops obj)" if "0 \<le> levelOf obj"
    using that by (induction ops arbitrary: obj) (simp_all add: levelOf_applyOp)
  show "kvo_changeLevel (endPropertyChanges obj) = Some 0" if "levelOf obj = 0"
    using that
    by (auto simp: endPropertyChanges_def Let_def notifyPropertyObservers_level levelOf_def
          lowerLevel_def split: option.splits)
  show "levelOf (notifyPropertyObservers key obj) = levelOf obj" if "0 \<le> levelOf obj"
    using that by (rule levelOf_flush)
qed

theorem changeLevel_never_negative_witness:
  "0 \<le> levelOf (applyOps [OpEnd, OpEnd, OpBegin, OpDidChange ''a'', OpEnd, OpFlush None]
                  (newObservable Map.empty))
   \<and> kvo_changeLevel (endPropertyChanges (newObservable Map.empty)) = Some 0
   \<and> levelOf (notifyPropertyObservers (Some ''a'') (newObservable Map.empty)) = 0"
  using changeLevel_never_negative
          [of "newObservable Map.empty"
              "[OpEnd, OpEnd, OpBegin, OpDidChange ''a'', OpEnd, OpFlush None]" "Some ''a''"]
  by (simp add: levelOf_def newObservable_def)

section \<open>Registered dependents\<close>

lemma pushTo_map_of:
  "map_of (pushTo dep x h) k
     = (if k = dep then Some ((case map_of h dep of None \<Rightarrow> [] | Some q \<Rightarrow> q) @ [x])
        else map_of h k)"
proof (cases "map_of h dep")
  case None
  then show ?thesis
    by (auto simp: pushTo_def map_add_def split: option.splits)
next
  case (Some q)
  have "map_of (map (\<lambda>(k, q). if k = dep then (k, q @ [x]) else (k, q)) h) k
      = (if k = dep then map_option (\<lambda>q. q @ [x]) (map_of h dep) else map_of h k)"
    by (induction h) auto
  with Some show ?thesis by (simp add: pushTo_def)
qed

lemma registerDependent_slots [simp]: "slots (registerDependent key dep obj) = slots obj"
  by (simp add: registerDependent_def Let_def slot_def split: option.splits jsval.splits)

lemma registerDependent_adds:
  assumes "slot obj key = Func f" and "isCacheable f"
  shows "f \<in> set (cachedDependentsOf (registerDependent key dep obj) dep)"
  using assms
  by (simp add: registerDependent_def Let_def slot_def cachedDependentsOf_def pushTo_map_of
        split: option.splits)

lemma registerDependent_keeps:
  assumes "g \<in> set (cachedDependentsOf obj b)"
  shows "g \<in> set (cachedDependentsOf (registerDependent key dep obj) b)"
  using assms
  by (auto simp: registerDependent_def Let_def slot_def cachedDependentsOf_def pushTo_map_of
        split: option.splits jsval.splits)

lemma registerAll_keeps:
  "g \<in> set (cachedDependentsOf obj b) \<Longrightarrow>
   g \<in> set (cachedDependentsOf (foldl (\<lambda>ob d. registerDependent key d ob) obj ds) b)"
  by (induction ds arbitrary: obj) (simp_all add: registerDependent_keeps)

lemma registerAll_adds:
  assumes "slot obj key = Func f" and "isCacheable f" and "b \<in> set ds"
  shows "f \<in> set (cachedDependentsOf (foldl (\<lambda>ob d. registerDependent key d ob) obj ds) b)"
  using assms
proof (induction ds arbitrary: obj)
  case Nil
  then show ?case by simp
next
  case (Cons d ds)
  have s: "slot (registerDependent key d obj) key = Func f"
    using Cons.prems(1) by (simp add: slot_def)
  show ?case
  proof (cases "b = d")
    case True
    then show ?thesis
      using registerAll_keeps[OF registerDependent_adds[OF Cons.prems(1,2), of d]] by simp
  next
    case False
    then show ?thesis using Cons.IH[OF s Cons.prems(2)] Cons.prems(3) by simp
  qed
qed

text \<open>
  \<open>registerDependentKey\<close> puts a cacheable function at the key among the
  cached dependents of every key it is given.
\<close>

lemma registerDependentKey_caches:
  assumes "slot obj key = Func f" and "isCacheable f"
    and "b \<in> set (concat (map dependencyKeys deps))"
  shows "f \<in> set (cachedDependentsOf (registerDependentKey key deps obj) b)"
proof -
  let ?obj1 = "if kvo_dependents obj = None then obj\<lparr>kvo_dependents := Some []\<rparr> else obj"
  have s: "slot ?obj1 key = Func f" using assms(1) by (simp add: slot_def)
  have b: "b \<in> set (concat (map dependencyKeys (rev deps)))" using assms(3) by auto
  show ?thesis
    using registerAll_adds[OF s assms(2) b] by (simp add: registerDependentKey_def Let_def)
qed


section \<open>The example object, evaluated\<close>

lemma registerDependentKey_slots [simp]:
  "slots (registerDependentKey key deps obj) = slots obj"
proof -
  have "slots (foldl (\<lambda>ob d. registerDependent key d ob) ob ds) = slots ob" for ob ds
    by (induction ds arbitrary: ob) simp_all
  then show ?thesis by (simp add: registerDependentKey_def Let_def)
qed

lemmas example_properties =
  nothingProperty_def greetingProperty_def balanceProperty_def computedProperty_def

lemma example_object_slots:
  "slots example_object
     = [''first'' \<mapsto> Str ''Ann'',
        ''nothing'' \<mapsto> Func nothingProperty,
        ''greeting'' \<mapsto> Func greetingProperty,
        ''balance'' \<mapsto> Func balanceProperty]"
  by (simp add: example_object_def newObservable_def)

lemma example_object_fields:
  "automaticallyNotifies example_object = (\<lambda>key. True)"
  "isObserveringSuspended example_object = False"
  "kvo_changeLevel example_object = None"
  "kvo_changes example_object = None"
  "kvo_altChanges example_object = None"
  "kvo_revision example_object = None"
  "propertyRevision example_object = 1"
  "kvo_dependents example_object
     = Some [(''first'', [''greeting'', ''nothing'']), (''rate'', [''balance''])]"
  "kvo_cachedDependents example_object
     = Some [(''first'', [greetingProperty, nothingProperty]), (''rate'', [balanceProperty])]"
  "kvo_observers example_object = Map.empty"
  "kvo_observed_keys example_object = []"
  "kvo_local example_object = Map.empty"
  "trace example_object = []"
  by (simp_all add: example_object_def newObservable_def registerDependentKey_def
        registerDependent_def pushTo_def slot_def Let_def example_properties)

lemmas observable_eval =
  set'_def setPlain_def setComputed_def setUnknown_def clearCachedDependents_def
  cachedDependentsOf_def propertyWillChange_def propertyDidChange_def countChange_def
  notifyPropertyObservers_def notifyLoop.simps notifyRound_def capturedChanges_def expandedChanges_def notifyKey_def
  expandDependents.simps dependentsOf_def clearCacheOf_def setAdd_def
  hasPendingChanges_def levelOf_def revisionOf_def lowerLevel_def record_event_def
  slot_def callProperty_def unknownProperty_def get_def Let_def
  beginPropertyChanges_def endPropertyChanges_def
  example_object_slots example_object_fields example_properties example_pf_def



section \<open>The trace only grows\<close>








section \<open>Cached computed properties\<close>

lemma get_undefined_result:
  assumes "slot obj key = Func f" and "isProperty f" and "isCacheable f"
    and "cacheKey f \<noteq> key"
    and "slot obj (cacheKey f) = Undefined"
    and "fst (pf f key Undefined (slots obj)) = Undefined"
    and "snd (pf f key Undefined (slots obj)) key = Some (Func f)"
  shows "fst (get pf key obj) = Undefined"
    and "slot (snd (get pf key obj)) key = Func f"
    and "slot (snd (get pf key obj)) (cacheKey f) = Undefined"
    and "getterCalls f key (snd (get pf key obj)) = Suc (getterCalls f key obj)"
  using assms
  by (simp_all add: get_def callProperty_def record_event_def slot_def getterCalls_def)

text \<open>
  Claim C10. For a cacheable computed property whose function returns
  \<open>undefined\<close>, \<open>get\<close> leaves the cache slot undefined, so every further
  \<open>get\<close> calls the function again: after \<open>n\<close> reads in a row, starting with
  an empty cache, the function has been called \<open>n\<close> more times, and the next
  read returns \<open>undefined\<close> again. The function is any that leaves the slot
  of its own key in place; the cache slot is not the slot of the key itself.
\<close>

theorem get_does_not_cache_undefined:
  assumes "slot obj key = Func f" and "isProperty f" and "isCacheable f"
    and "cacheKey f \<noteq> key"
    and "slot obj (cacheKey f) = Undefined"
    and "\<forall>s. fst (pf f key Undefined s) = Undefined"
    and "\<forall>s. s key = Some (Func f) \<longrightarrow> snd (pf f key Undefined s) key = Some (Func f)"
  shows "getterCalls f key (getTimes pf key n obj) = getterCalls f key obj + n
    \<and> slot (getTimes pf key n obj) (cacheKey f) = Undefined
    \<and> fst (get pf key (getTimes pf key n obj)) = Undefined"
  using assms(1,5)
proof (induction n arbitrary: obj)
  case 0
  have k: "slots obj key = Some (Func f)"
    using "0.prems"(1) by (simp add: slot_def split: option.splits)
  show ?case
    using "0.prems" get_undefined_result(1)[of obj key f pf] assms(2,3,4,6,7) k by simp
next
  case (Suc n)
  have k: "slots obj key = Some (Func f)"
    using Suc.prems(1) by (simp add: slot_def split: option.splits)
  note step = get_undefined_result[of obj key f pf, OF Suc.prems(1) assms(2,3,4) Suc.prems(2)]
  have a: "fst (pf f key Undefined (slots obj)) = Undefined" using assms(6) by simp
  have b: "snd (pf f key Undefined (slots obj)) key = Some (Func f)" using assms(7) k by simp
  show ?case
    using Suc.IH[OF step(2)[OF a b] step(3)[OF a b]] step(4)[OF a b] by simp
qed


theorem get_does_not_cache_undefined_witness:
  "getterCalls nothingProperty ''nothing'' (getTimes example_pf ''nothing'' 3 example_object) = 3
   \<and> slot (getTimes example_pf ''nothing'' 3 example_object) (cacheKey nothingProperty) = Undefined
   \<and> fst (get example_pf ''nothing'' (getTimes example_pf ''nothing'' 3 example_object)) = Undefined"
proof -
  have a: "slot example_object ''nothing'' = Func nothingProperty"
    by (simp add: slot_def example_object_slots)
  have b: "isProperty nothingProperty" "isCacheable nothingProperty"
      "cacheKey nothingProperty \<noteq> ''nothing''"
    by (simp_all add: example_properties)
  have c: "slot example_object (cacheKey nothingProperty) = Undefined"
    by (simp add: slot_def example_object_slots example_properties)
  have d: "\<forall>s. fst (example_pf nothingProperty ''nothing'' Undefined s) = Undefined"
    by (simp add: example_pf_def example_properties)
  have e: "\<forall>s. s ''nothing'' = Some (Func nothingProperty) \<longrightarrow>
             snd (example_pf nothingProperty ''nothing'' Undefined s) ''nothing''
               = Some (Func nothingProperty)"
    by (simp add: example_pf_def example_properties)
  have z: "getterCalls nothingProperty ''nothing'' example_object = 0"
    by (simp add: getterCalls_def example_object_fields)
  show ?thesis
    using get_does_not_cache_undefined
            [where obj=example_object and key="''nothing''" and f=nothingProperty
               and pf=example_pf and n=3, OF a b c d e] z
    by simp
qed

lemma propertyDidChange_cachedDependents [simp]:
  "kvo_cachedDependents (propertyDidChange key obj) = kvo_cachedDependents obj"
  by (simp add: propertyDidChange_def Let_def record_event_def)

lemma callProperty_cachedDependents [simp]:
  "kvo_cachedDependents (snd (callProperty pf f key v obj)) = kvo_cachedDependents obj"
  by (simp add: callProperty_def record_event_def)

lemma set_branches_cachedDependents [simp]:
  "kvo_cachedDependents (setComputed pf f key v obj) = kvo_cachedDependents obj"
  "kvo_cachedDependents (setUnknown key v obj) = kvo_cachedDependents obj"
  "kvo_cachedDependents (setPlain key v obj) = kvo_cachedDependents obj"
  by (simp_all add: setComputed_def setUnknown_def setPlain_def Let_def propertyWillChange_def
        record_event_def unknownProperty_def callProperty_def)












section \<open>Setting a computed property\<close>

lemma clearCachedDependents_fields [simp]:
  "trace (clearCachedDependents key obj) = trace obj"
  "kvo_revision (clearCachedDependents key obj) = kvo_revision obj"
  "kvo_changes (clearCachedDependents key obj) = kvo_changes obj"
  by (simp_all add: clearCachedDependents_def)






text \<open>
  With automatic notification on, \<open>propertyDidChange\<close> clears the cache and the
  last-set-value slot of a cacheable function right after \<open>set\<close> has filled
  them, so setting the same value twice calls the function twice.
\<close>

lemma set_twice_with_notification:
  "trace (set' example_pf ''balance'' (Num 5)
            (set' example_pf ''balance'' (Num 5) example_object))
     = [WillChange ''balance'', Call balanceProperty ''balance'' (Num 5), DidChange ''balance'',
        WillChange ''balance'', Call balanceProperty ''balance'' (Num 5), DidChange ''balance'']"
  by (simp add: observable_eval)

section \<open>One flush, one call per registration\<close>




lemma notificationsFor_append [simp]:
  "notificationsFor key (xs @ ys) = notificationsFor key xs @ notificationsFor key ys"
  by (simp add: notificationsFor_def)

lemma notificationsFor_others [simp]:
  "notificationsFor key (map (\<lambda>n. LocalNotified n k r) ns) = []"
  "notificationsFor key (map (\<lambda>m. StarNotified (m_target m) (m_method m) k r) ms) = []"
  "notificationsFor key [PropertyObserver k r] = []"
  "notificationsFor key [] = []"
  by (simp_all add: notificationsFor_def)

lemma notificationsFor_own [simp]:
  "notificationsFor key (map (notification key r) ms) = map (notification key r) ms"
  by (induction ms) (simp_all add: notificationsFor_def notification_def)














lemma set_cachedDependents [simp]:
  "kvo_cachedDependents (set' pf k v obj) = kvo_cachedDependents obj"
  by (simp add: set'_def clearCachedDependents_def split: jsval.splits)

lemma setRaises_set [simp]: "setRaises (set' pf k v obj) key = setRaises obj key"
  by (simp add: setRaises_def)

lemma setRaises_begin [simp]: "setRaises (beginPropertyChanges obj) key = setRaises obj key"
  by (simp add: setRaises_def beginPropertyChanges_def)


text \<open>
  Stamps stay below \<open>propertyRevision\<close>: a flush stamps with the revision it
  has already counted up from, and nothing else writes a stamp.
\<close>

lemma stampsBelow_mono: "stampsBelow r ms \<Longrightarrow> r \<le> r' \<Longrightarrow> stampsBelow r' ms"
  by (induction ms) (auto simp: stampsBelow_def split: option.splits)


lemma notifyMembers_stampsBelow:
  "stampsBelow R ms \<Longrightarrow> r < R \<Longrightarrow> stampsBelow R (fst (notifyMembers r key ms))"
  by (induction ms) (auto simp: stampsBelow_def)

lemma notifyKey_stampsBelow:
  assumes "stampsBelow R (observersOf obj key)" and "r < R"
  shows "stampsBelow R (observersOf (notifyKey r k obj) key)"
proof (cases "kvo_observers obj k")
  case None
  then show ?thesis using assms by (simp add: notifyKey_def Let_def observersOf_def)
next
  case (Some ms)
  show ?thesis
  proof (cases "k = key")
    case True
    then show ?thesis
      using assms Some notifyMembers_stampsBelow[of R ms r key]
      by (simp add: notifyKey_def Let_def observersOf_def)
  next
    case False
    then show ?thesis using assms Some by (simp add: notifyKey_def Let_def observersOf_def)
  qed
qed

lemma notifyChanges_stampsBelow:
  "stampsBelow R (observersOf obj key) \<Longrightarrow> r < R
    \<Longrightarrow> stampsBelow R (observersOf (notifyChanges r ks obj) key)"
  by (induction ks arbitrary: obj) (simp_all add: notifyKey_stampsBelow)

lemma notifyRound_settled:
  assumes "stampsBelow (propertyRevision obj) (observersOf obj key)"
  shows "settled (notifyRound k obj) key"
proof -
  let ?r = "propertyRevision obj"
  let ?ex = "expandedChanges k obj"
  let ?o1 = "obj\<lparr>propertyRevision := ?r + 1, kvo_changes := kvo_altChanges obj,
                  kvo_altChanges := None, slots := snd ?ex\<rparr>"
  have "stampsBelow (?r + 1) (observersOf ?o1 key)"
    using stampsBelow_mono[OF assms, of "?r + 1"] by (simp add: observersOf_def)
  then have "stampsBelow (?r + 1) (observersOf (notifyChanges ?r (rev (fst ?ex)) ?o1) key)"
    by (rule notifyChanges_stampsBelow) simp
  then show ?thesis
    by (simp add: settled_def notifyRound_def Let_def observersOf_def)
qed

lemma notifyLoop_settled: "settled obj key \<Longrightarrow> settled (notifyLoop k obj) key"
proof (induction k obj rule: notifyLoop.induct)
  case (1 k obj)
  show ?case
  proof (cases "hasPendingChanges obj \<or> truthyKey k")
    case True
    have "settled (notifyRound k obj) key"
      using "1.prems" by (intro notifyRound_settled) (simp add: settled_def)
    from "1.IH"[OF True this] show ?thesis
      using True by (subst notifyLoop.simps) simp
  next
    case False
    then show ?thesis using "1.prems" by (subst notifyLoop.simps) simp
  qed
qed

lemma settled_level [simp]: "settled (obj\<lparr>kvo_changeLevel := l\<rparr>) key = settled obj key"
  by (simp add: settled_def observersOf_def)

lemma notifyPropertyObservers_settled:
  "settled obj key \<Longrightarrow> settled (notifyPropertyObservers k obj) key"
  using notifyLoop_settled[of "obj\<lparr>kvo_changeLevel := Some (levelOf obj + 1)\<rparr>" key k]
  by (simp add: notifyPropertyObservers_def Let_def)



lemma settled_fields:
  "kvo_observers ob = kvo_observers obj \<Longrightarrow> propertyRevision ob = propertyRevision obj
    \<Longrightarrow> kvo_altChanges ob = kvo_altChanges obj \<Longrightarrow> settled ob key = settled obj key"
  by (simp add: settled_def observersOf_def)

lemma propertyDidChange_settled:
  assumes "settled obj key"
  shows "settled (propertyDidChange k obj) key"
proof -
  have c: "settled (countChange k obj) key"
    using assms settled_fields[of "countChange k obj" obj key] by simp
  show ?thesis
  proof (cases "0 < levelOf obj \<or> isObserveringSuspended obj")
    case True
    have "settled ob key" if "kvo_observers ob = kvo_observers obj"
        "propertyRevision ob = propertyRevision obj" "kvo_altChanges ob = kvo_altChanges obj" for ob
      using that assms settled_fields[of ob obj key] by simp
    then show ?thesis
      using True by (auto simp: propertyDidChange_def Let_def record_event_def)
  next
    case False
    then show ?thesis
      using notifyPropertyObservers_settled[OF c, of "Some k"]
      by (simp add: propertyDidChange_def Let_def)
  qed
qed

lemma settled_slots [simp]: "settled (ob\<lparr>slots := x\<rparr>) key = settled ob key"
  by (simp add: settled_def observersOf_def)

lemma settled_record_event [simp]: "settled (record_event e ob) key = settled ob key"
  by (simp add: settled_def observersOf_def record_event_def)

lemma settled_callProperty [simp]:
  "settled (snd (callProperty pf f k v ob)) key = settled ob key"
  by (simp add: callProperty_def)

lemma settled_unknownProperty [simp]:
  "settled (snd (unknownProperty k v ob)) key = settled ob key"
  by (simp add: unknownProperty_def)

lemma set_settled:
  assumes "settled obj key"
  shows "settled (set' pf k v obj) key"
proof -
  have plain: "settled (setPlain k v obj) key"
    using assms by (simp add: setPlain_def Let_def propertyWillChange_def
          propertyDidChange_settled)
  have unknown: "settled (setUnknown k v obj) key"
    using assms by (simp add: setUnknown_def Let_def propertyWillChange_def
          propertyDidChange_settled)
  have computed: "settled (setComputed pf f k v obj) key" for f
    using assms
    by (simp add: setComputed_def Let_def propertyWillChange_def case_prod_beta
          propertyDidChange_settled)
  show ?thesis
    using plain unknown computed
    by (simp add: set'_def clearCachedDependents_def split: jsval.splits)
qed

lemma get_settled: "settled obj key \<Longrightarrow> settled (snd (get pf k obj)) key"
  by (simp add: get_def Let_def case_prod_beta split: jsval.splits)

lemma registerDependent_settled [simp]:
  "settled (registerDependent k dep obj) key = settled obj key"
  by (simp add: registerDependent_def Let_def settled_def observersOf_def
        split: jsval.splits)

lemma registerDependentKey_settled:
  "settled (registerDependentKey k deps obj) key = settled obj key"
proof -
  have "settled (foldl (\<lambda>ob d. registerDependent k d ob) ob ds) key = settled ob key" for ob ds
    by (induction ds arbitrary: ob) simp_all
  then show ?thesis
    by (simp add: registerDependentKey_def Let_def settled_def observersOf_def)
qed

lemma newObservable_settled: "settled (newObservable s) key"
  by (simp add: settled_def newObservable_def observersOf_def stampsBelow_def)

lemma addObserver_settled:
  "settled obj key \<Longrightarrow> settled (addObserver k target method obj) key"
proof (cases "k = key")
  case True
  assume "settled obj key"
  then have "stampsBelow (propertyRevision obj) (observersOf obj key)"
      and a: "case kvo_altChanges obj of None \<Rightarrow> True | Some c \<Rightarrow> c = []"
    by (simp_all add: settled_def)
  then have "stampsBelow (propertyRevision obj)
      (observersOf obj key @ [\<lparr>m_target = target, m_method = method, m_stamp = None\<rparr>])"
    by (simp add: stampsBelow_def)
  with \<open>stampsBelow (propertyRevision obj) (observersOf obj key)\<close> a True show ?thesis
    by (simp add: settled_def addObserver_def Let_def observersOf_def)
next
  case False
  assume "settled obj key"
  with False show ?thesis
    by (simp add: settled_def addObserver_def Let_def observersOf_def)
qed




lemma watched_object_fields:
  "slots watched_object = slots example_object"
  "automaticallyNotifies watched_object = (\<lambda>key. True)"
  "isObserveringSuspended watched_object = False"
  "kvo_changeLevel watched_object = None"
  "kvo_changes watched_object = None"
  "kvo_altChanges watched_object = None"
  "kvo_revision watched_object = None"
  "propertyRevision watched_object = 1"
  "kvo_dependents watched_object = kvo_dependents example_object"
  "kvo_cachedDependents watched_object = kvo_cachedDependents example_object"
  "kvo_local watched_object = Map.empty"
  "trace watched_object = []"
  "observersOf watched_object ''first''
     = [\<lparr>m_target = Some 7, m_method = 11, m_stamp = None\<rparr>,
        \<lparr>m_target = None, m_method = 10, m_stamp = None\<rparr>]"
  by (simp_all add: watched_object_def addObserver_def Let_def observersOf_def
        example_object_fields)

lemma watched_batch_trace:
  "map_option trace
     (batch example_pf ''first'' [Str ''Bob'', Str ''Cy'', Str ''Bob''] watched_object)
   = Some [WillChange ''first'', DidChange ''first'', WillChange ''first'',
           DidChange ''first'', WillChange ''first'', DidChange ''first'',
           Notified None 12 ''greeting'' 1, Notified (Some 7) 11 ''first'' 1,
           Notified None 10 ''first'' 1]"
  by (simp add: batch_def setRaises_def inheritedWithParameters_def watched_object_def
        addObserver_def observable_eval)



text \<open>
  A \<open>set\<close> that raises: the example object has a table of cached dependents,
  and \<open>constructor\<close> names an inherited function with a parameter.
\<close>

lemma batch_raises_example:
  "batch example_pf ''constructor'' [Num 1] watched_object = None"
  by (simp add: batch_def setRaises_def inheritedWithParameters_def watched_object_fields
        example_object_fields beginPropertyChanges_def)


end
